theory Spec2Isabelle
  imports Main "HOL-Library.Word"
begin

section \<open>The NCCL process group of c10d (torch/lib/c10d/ProcessGroupNCCL.cpp)\<close>

text \<open>
  A shallow embedding of \<^verbatim>\<open>ProcessGroupNCCL.cpp\<close>. Pure helpers are HOL functions.
  Methods that throw return a sum (\<open>Inl\<close> the exception); methods with effects pass the
  state explicitly and return it together with the result, also when they throw: what a
  method did before it threw stays done, as in C++.

  Names. The source's names are kept; a member that the source writes with a trailing
  underscore, as \<^verbatim>\<open>devices_\<close>, is written \<open>m_devices\<close>, since a name cannot end in an
  underscore here.

  Integer types. A C \<^verbatim>\<open>int\<close> and an \<^verbatim>\<open>ssize_t\<close> are modelled as \<open>int\<close>. Where the source
  converts between \<^verbatim>\<open>int\<close> and \<^verbatim>\<open>size_t\<close> (the participant ranks) the wrap-around of the
  conversion is written out. The element count of a tensor is an \<^verbatim>\<open>int64_t\<close>, modelled as
  a word of 64 bits: the product of line 324 is a product of such words, which wraps, as
  the multiplication of the compiled code does (C++ leaves the overflow of a signed
  product undefined). The increments of the two \<^verbatim>\<open>ssize_t\<close> counters are signed
  arithmetic that would need \<open>2 ^ 63\<close> steps to overflow; they are modelled as arithmetic
  on \<open>int\<close>.
\<close>

subsection \<open>\<^verbatim>\<open>std::to_string\<close> on integers\<close>

text \<open>The ten decimal digits, and the digit of a number below ten.\<close>

definition decimal_digits :: string where
  "decimal_digits = ''0123456789''"

definition digit_char :: "nat \<Rightarrow> char" where
  "digit_char n = decimal_digits ! n"

text \<open>The decimal digits of a natural number, most significant first, no leading zero.\<close>

fun digits :: "nat \<Rightarrow> string" where
  "digits n = (if n < 10 then [digit_char n] else digits (n div 10) @ [digit_char (n mod 10)])"

declare digits.simps [simp del]

text \<open>\<^verbatim>\<open>std::to_string(int)\<close>: the format \<^verbatim>\<open>%d\<close>.\<close>

definition to_string :: "int \<Rightarrow> string" where
  "to_string i = (if i < 0 then CHR ''-'' # digits (nat (- i)) else digits (nat i))"

subsection \<open>The key of a device list\<close>

text \<open>
  \<^verbatim>\<open>getKeyFromDevices\<close> (lines 42-52): the loop over \<^verbatim>\<open>devices\<close>, with the string built so
  far as its accumulator.
\<close>

fun getKeyFromDevices_loop :: "string \<Rightarrow> int list \<Rightarrow> string" where
  "getKeyFromDevices_loop deviceList [] = deviceList"
| "getKeyFromDevices_loop deviceList (device # devices) =
     getKeyFromDevices_loop
       (if deviceList = [] then to_string device
        else deviceList @ '','' @ to_string device)
       devices"

definition getKeyFromDevices :: "int list \<Rightarrow> string" where
  "getKeyFromDevices devices = getKeyFromDevices_loop [] devices"

subsection \<open>Tensors and exceptions\<close>

text \<open>
  The element types of \<^verbatim>\<open>at::ScalarType\<close>. The file names seven of them in its table
  \<^verbatim>\<open>ncclDataType\<close>; \<open>kShort\<close> is the one that the table leaves out.
\<close>

datatype ScalarType = kByte | kChar | kShort | kInt | kLong | kHalf | kFloat | kDouble

text \<open>
  What the file reads of an \<^verbatim>\<open>at::Tensor\<close>: \<^verbatim>\<open>type().is_cuda()\<close>, \<^verbatim>\<open>type().is_sparse()\<close>,
  \<^verbatim>\<open>type().scalarType()\<close>, \<^verbatim>\<open>numel()\<close>, \<^verbatim>\<open>is_contiguous()\<close>, \<^verbatim>\<open>get_device()\<close> and
  \<^verbatim>\<open>data_ptr()\<close> (an address).
\<close>

record Tensor =
  is_cuda :: bool
  is_sparse :: bool
  scalarType :: ScalarType
  numel :: "64 word"
  is_contiguous :: bool
  get_device :: int
  data_ptr :: nat

text \<open>The return codes of the CUDA runtime and of NCCL, as far as the file tells them apart.\<close>

datatype cudaError_t = cudaSuccess | cudaErrorNotReady | cudaErrorOther nat

datatype ncclResult_t = ncclSuccess | ncclFailure nat

text \<open>
  The exceptions. \<open>RuntimeError\<close> is a \<^verbatim>\<open>std::runtime_error\<close> thrown by this file, with its
  message. \<open>CudaCheckFailed\<close> and \<open>NcclCheckFailed\<close> are what the macros
  \<^verbatim>\<open>C10D_CUDA_CHECK\<close> and \<^verbatim>\<open>C10D_NCCL_CHECK\<close> throw, with the code they were given.
  \<open>InvalidArgument\<close> and \<open>OutOfRange\<close> are the two exceptions of \<^verbatim>\<open>std::stoull\<close>.
  \<open>Undefined\<close> stands for an access outside a vector, which C++ leaves undefined.
  \<open>Blocked\<close> is not an exception: it is a call that never returns (a \<^verbatim>\<open>get\<close> on a key of
  the store that nobody sets).
\<close>

datatype error =
    RuntimeError string
  | CudaCheckFailed cudaError_t
  | NcclCheckFailed ncclResult_t
  | InvalidArgument
  | OutOfRange
  | Undefined
  | Blocked

subsection \<open>Conversions between \<^verbatim>\<open>int\<close> and \<^verbatim>\<open>size_t\<close>\<close>

text \<open>
  An \<^verbatim>\<open>int\<close> has 32 bits and a \<^verbatim>\<open>size_t\<close> 64. Converting to \<^verbatim>\<open>size_t\<close> reduces modulo
  \<open>2 ^ 64\<close>; converting to \<^verbatim>\<open>int\<close> reduces modulo \<open>2 ^ 32\<close> into the signed range.
\<close>

definition to_size_t :: "int \<Rightarrow> int" where
  "to_size_t x = x mod 2 ^ 64"

definition to_int :: "int \<Rightarrow> int" where
  "to_int x = (x + 2 ^ 31) mod 2 ^ 32 - 2 ^ 31"

subsection \<open>Validation of the tensors of a call\<close>

text \<open>The ten messages of \<^verbatim>\<open>tensorCheckHelper\<close> (lines 279-347), in the order of the file.\<close>

definition err_length_mismatch :: error where
  "err_length_mismatch = RuntimeError
     ''Input tensor sequence should have the same number of tensors as the output tensor sequence''"

definition err_zero_tensors :: error where
  "err_zero_tensors = RuntimeError ''The number of input tensors should not be zero''"

definition err_too_many_tensors :: error where
  "err_too_many_tensors = RuntimeError
     ''The number of input tensors is larger than the number of available GPUs''"

definition err_not_cuda_dense :: error where
  "err_not_cuda_dense = RuntimeError
     ''Only CUDA dense tensor is supported for NCCL collective operations''"

definition err_type_mismatch :: error where
  "err_type_mismatch = RuntimeError ''Expecting all GPU tensors to have identical type''"

definition err_input_numel :: error where
  "err_input_numel = RuntimeError
     ''Expecting all input tensors to have identical number of elements''"

definition err_output_numel :: error where
  "err_output_numel = RuntimeError
     ''The number of elements of output tensor does not match the number of elements of the input tensor''"

definition err_not_contiguous :: error where
  "err_not_contiguous = RuntimeError ''Expecting all GPU tensors to be contiguous''"

definition err_duplicate_device :: error where
  "err_duplicate_device = RuntimeError ''Expecting inputs on different GPU devices''"

definition err_device_mismatch :: error where
  "err_device_mismatch = RuntimeError
     ''Expecting input and output tensors to be on the same device''"

text \<open>
  The loop of lines 302-348. The lengths of \<^verbatim>\<open>input\<close> and \<^verbatim>\<open>output\<close> are equal when the
  loop starts (line 279), so the loop over the index \<open>i\<close> is a recursion over the pairs
  \<open>(input[i], output[i])\<close>. \<open>usedDevices\<close> is the set of line 296;
  \<^verbatim>\<open>usedDevices.insert\<close> reports \<^verbatim>\<open>inserted = false\<close> when the device is in the set.
  Line 324 converts the \<^verbatim>\<open>int\<close> \<^verbatim>\<open>outputOverInput\<close> to \<^verbatim>\<open>int64_t\<close> and multiplies in 64 bits.
\<close>

fun tensorCheckHelper_loop ::
  "64 word \<Rightarrow> ScalarType \<Rightarrow> int \<Rightarrow> int set \<Rightarrow> (Tensor \<times> Tensor) list \<Rightarrow> error + unit" where
  "tensorCheckHelper_loop inputNumElement elementType outputOverInput usedDevices [] = Inr ()"
| "tensorCheckHelper_loop inputNumElement elementType outputOverInput usedDevices
     ((inp, out) # rest) =
     (if \<not> (is_cuda inp \<and> \<not> is_sparse inp \<and> is_cuda out \<and> \<not> is_sparse out)
      then Inl err_not_cuda_dense
      else if scalarType inp \<noteq> elementType \<or> scalarType out \<noteq> elementType
      then Inl err_type_mismatch
      else if numel inp \<noteq> inputNumElement
      then Inl err_input_numel
      else if numel out \<noteq> inputNumElement * word_of_int outputOverInput
      then Inl err_output_numel
      else if \<not> is_contiguous inp \<or> \<not> is_contiguous out
      then Inl err_not_contiguous
      else if get_device inp \<in> usedDevices
      then Inl err_duplicate_device
      else if get_device inp \<noteq> get_device out
      then Inl err_device_mismatch
      else tensorCheckHelper_loop inputNumElement elementType outputOverInput
             (insert (get_device inp) usedDevices) rest)"

text \<open>
  \<^verbatim>\<open>tensorCheckHelper\<close> (lines 275-349). \<open>numDevices\<close> is \<^verbatim>\<open>thcState_->numDevices\<close>, an
  \<^verbatim>\<open>int\<close> that line 289 converts to \<^verbatim>\<open>size_t\<close>.
\<close>

definition tensorCheckHelper ::
  "int \<Rightarrow> Tensor list \<Rightarrow> Tensor list \<Rightarrow> int \<Rightarrow> error + unit" where
  "tensorCheckHelper numDevices input output outputOverInput =
     (if length input \<noteq> length output then Inl err_length_mismatch
      else if length input = 0 then Inl err_zero_tensors
      else if int (length input) > to_size_t numDevices then Inl err_too_many_tensors
      else
        let inputNumElement = numel (input ! 0);
            elementType = scalarType (input ! 0)
        in tensorCheckHelper_loop inputNumElement elementType outputOverInput {}
             (zip input output))"

text \<open>
  The seven checks of the loop, each as a predicate of the index \<open>i\<close> of a pair: the
  conditions of lines 304, 311, 318, 324, 331, 338 and 343. When the loop reaches index
  \<open>i\<close>, \<^verbatim>\<open>usedDevices\<close> holds the devices of the inputs before \<open>i\<close>.
\<close>

definition not_cuda_dense_at :: "Tensor list \<Rightarrow> Tensor list \<Rightarrow> nat \<Rightarrow> bool" where
  "not_cuda_dense_at input output i =
     (\<not> is_cuda (input ! i) \<or> is_sparse (input ! i) \<or>
      \<not> is_cuda (output ! i) \<or> is_sparse (output ! i))"

definition type_mismatch_at :: "Tensor list \<Rightarrow> Tensor list \<Rightarrow> nat \<Rightarrow> bool" where
  "type_mismatch_at input output i =
     (scalarType (input ! i) \<noteq> scalarType (input ! 0) \<or>
      scalarType (output ! i) \<noteq> scalarType (input ! 0))"

definition input_numel_at :: "Tensor list \<Rightarrow> nat \<Rightarrow> bool" where
  "input_numel_at input i = (numel (input ! i) \<noteq> numel (input ! 0))"

definition output_numel_at :: "Tensor list \<Rightarrow> Tensor list \<Rightarrow> int \<Rightarrow> nat \<Rightarrow> bool" where
  "output_numel_at input output ratio i = (numel (output ! i) \<noteq> numel (input ! 0) * word_of_int ratio)"

definition not_contiguous_at :: "Tensor list \<Rightarrow> Tensor list \<Rightarrow> nat \<Rightarrow> bool" where
  "not_contiguous_at input output i =
     (\<not> is_contiguous (input ! i) \<or> \<not> is_contiguous (output ! i))"

definition duplicate_device_at :: "Tensor list \<Rightarrow> nat \<Rightarrow> bool" where
  "duplicate_device_at input i = (get_device (input ! i) \<in> get_device ` set (take i input))"

definition device_mismatch_at :: "Tensor list \<Rightarrow> Tensor list \<Rightarrow> nat \<Rightarrow> bool" where
  "device_mismatch_at input output i = (get_device (input ! i) \<noteq> get_device (output ! i))"

text \<open>The seven checks with their errors, in the order of the loop's body.\<close>

definition loop_checks ::
  "Tensor list \<Rightarrow> Tensor list \<Rightarrow> int \<Rightarrow> ((nat \<Rightarrow> bool) \<times> error) list" where
  "loop_checks input output ratio =
     [(not_cuda_dense_at input output, err_not_cuda_dense),
      (type_mismatch_at input output, err_type_mismatch),
      (input_numel_at input, err_input_numel),
      (output_numel_at input output ratio, err_output_numel),
      (not_contiguous_at input output, err_not_contiguous),
      (duplicate_device_at input, err_duplicate_device),
      (device_mismatch_at input output, err_device_mismatch)]"

text \<open>The error of the first check of that list that the pair at index \<open>i\<close> violates.\<close>

definition check_at :: "Tensor list \<Rightarrow> Tensor list \<Rightarrow> int \<Rightarrow> nat \<Rightarrow> error option" where
  "check_at input output ratio i =
     map_option snd (find (\<lambda>c. fst c i) (loop_checks input output ratio))"

text \<open>
  The order of the checks as section 4.4 of the specification lists them, read as one
  list of ten checks for the whole call: the first check of the list that some pair
  violates gives the error. This definition follows the specification's words, not the
  source; it is here to be compared with \<open>tensorCheckHelper\<close>.
\<close>

definition spec_check_order ::
  "int \<Rightarrow> Tensor list \<Rightarrow> Tensor list \<Rightarrow> int \<Rightarrow> error + unit" where
  "spec_check_order numDevices input output outputOverInput =
     (if length input \<noteq> length output then Inl err_length_mismatch
      else if length input = 0 then Inl err_zero_tensors
      else if int (length input) > to_size_t numDevices then Inl err_too_many_tensors
      else
        case find (\<lambda>c. list_ex (fst c) [0 ..< length input])
               (loop_checks input output outputOverInput) of
          Some c \<Rightarrow> Inl (snd c)
        | None \<Rightarrow> Inr ())"

text \<open>
  Two notions for the proofs about the loop: the first violated check of one pair, given
  the devices used so far, and the devices of the pairs before an index.
\<close>

definition pair_error ::
  "64 word \<Rightarrow> ScalarType \<Rightarrow> int \<Rightarrow> int set \<Rightarrow> Tensor \<times> Tensor \<Rightarrow> error option" where
  "pair_error n0 t0 ratio used p =
     (if \<not> is_cuda (fst p) \<or> is_sparse (fst p) \<or> \<not> is_cuda (snd p) \<or> is_sparse (snd p)
      then Some err_not_cuda_dense
      else if scalarType (fst p) \<noteq> t0 \<or> scalarType (snd p) \<noteq> t0 then Some err_type_mismatch
      else if numel (fst p) \<noteq> n0 then Some err_input_numel
      else if numel (snd p) \<noteq> n0 * word_of_int ratio then Some err_output_numel
      else if \<not> is_contiguous (fst p) \<or> \<not> is_contiguous (snd p) then Some err_not_contiguous
      else if get_device (fst p) \<in> used then Some err_duplicate_device
      else if get_device (fst p) \<noteq> get_device (snd p) then Some err_device_mismatch
      else None)"

definition devices_before :: "(Tensor \<times> Tensor) list \<Rightarrow> nat \<Rightarrow> int set" where
  "devices_before ps i = get_device ` fst ` set (take i ps)"

text \<open>The key of a device list as a whole: the decimal indices, joined by commas.\<close>

fun joined :: "string list \<Rightarrow> string" where
  "joined [] = []"
| "joined (s # ss) = s @ concat (map (\<lambda>t. CHR '','' # t) ss)"

subsection \<open>The libraries outside the file\<close>

text \<open>
  CUDA, NCCL, THC and the store are not part of the file. A call into one of them is
  recorded in a trace, in the order in which the calls are made, and what the call
  returns is read from an environment \<open>env\<close> that may answer differently as the trace
  grows (an event that is pending now is ready later). Streams, events and communicators
  are handles; a handle that a library creates is the length of the trace at that moment,
  so two handles created by different calls differ.
\<close>

type_synonym cudaStream_t = nat
type_synonym cudaEvent_t = nat
type_synonym ncclComm_t = nat
type_synonym ncclUniqueId = "8 word list"

datatype ReduceOp = ReduceOp_MIN | ReduceOp_MAX | ReduceOp_SUM | ReduceOp_PRODUCT

datatype ncclRedOp_t = ncclSum | ncclProd | ncclMax | ncclMin

datatype ncclDataType_t =
  ncclInt8 | ncclUint8 | ncclInt32 | ncclInt64 | ncclHalf | ncclFloat | ncclDouble

datatype call =
    cudaSetDevice int
  | cudaEventCreateWithFlags cudaEvent_t
  | cudaStreamCreate cudaStream_t
  | cudaEventRecord cudaEvent_t cudaStream_t
  | cudaStreamWaitEvent cudaStream_t cudaEvent_t
  | cudaEventQuery cudaEvent_t
  | ncclGetUniqueId
  | ncclCommInitRank ncclComm_t int ncclUniqueId int
  | ncclGroupStart
  | ncclGroupEnd
  | ncclAllReduce nat nat "64 word" ncclDataType_t ncclRedOp_t ncclComm_t cudaStream_t
  | ncclBcast nat "64 word" ncclDataType_t int ncclComm_t cudaStream_t
  | store_set nat string "8 word list"
  | store_get nat string

record env =
  cuda_result :: "call list \<Rightarrow> call \<Rightarrow> cudaError_t"
  nccl_result :: "call list \<Rightarrow> call \<Rightarrow> ncclResult_t"
  current_stream :: "call list \<Rightarrow> int \<Rightarrow> cudaStream_t"
  unique_id :: "call list \<Rightarrow> ncclUniqueId"

text \<open>
  The state outside the objects of the file: the trace, the contents of the stores (a
  store is named by a number, the \<^verbatim>\<open>shared_ptr\<close> of the source), and the two static
  members of lines 151-152. The mutex \<^verbatim>\<open>pgTrackingLock_\<close> and the mutex of the caching
  allocator have no effect in a run of one thread; what the file does while it holds
  \<^verbatim>\<open>pgTrackingLock_\<close> is one step of the model.
\<close>

record world =
  trace :: "call list"
  stores :: "nat \<Rightarrow> string \<rightharpoonup> 8 word list"
  m_pgUniqueNCCLIDCnt :: "int \<rightharpoonup> int"
  m_processGroupCounter :: int

text \<open>Lines 151-152: the static members before any group exists.\<close>

definition initial_world :: world where
  "initial_world =
     \<lparr>trace = [], stores = (\<lambda>_. Map.empty), m_pgUniqueNCCLIDCnt = Map.empty,
      m_processGroupCounter = - 1\<rparr>"

subsection \<open>Results, exceptions and sequencing\<close>

text \<open>
  A method with effects maps a state to a result and the state after it. \<open>bindM\<close> is
  the semicolon: the second part runs in the state that the first part leaves, unless
  the first part threw.
\<close>

definition returnM :: "'a \<Rightarrow> 's \<Rightarrow> (error + 'a) \<times> 's" where
  "returnM x s = (Inr x, s)"

definition throwM :: "error \<Rightarrow> 's \<Rightarrow> (error + 'a) \<times> 's" where
  "throwM e s = (Inl e, s)"

definition bindM ::
  "('s \<Rightarrow> (error + 'a) \<times> 's) \<Rightarrow> ('a \<Rightarrow> 's \<Rightarrow> (error + 'b) \<times> 's) \<Rightarrow> 's \<Rightarrow> (error + 'b) \<times> 's" where
  "bindM m f s = (case m s of (Inl e, s') \<Rightarrow> (Inl e, s') | (Inr x, s') \<Rightarrow> f x s')"

text \<open>A pure computation that may throw, as a step.\<close>

definition liftE :: "error + 'a \<Rightarrow> 's \<Rightarrow> (error + 'a) \<times> 's" where
  "liftE r s = (r, s)"

text \<open>A step on the world, as a step on an object together with the world.\<close>

definition liftW :: "(world \<Rightarrow> 'r \<times> world) \<Rightarrow> 'p \<times> world \<Rightarrow> 'r \<times> ('p \<times> world)" where
  "liftW m s = (case m (snd s) of (r, w') \<Rightarrow> (r, (fst s, w')))"

text \<open>A \<^verbatim>\<open>for\<close> loop over the elements of a list, and one that collects what its body yields.\<close>

fun forM :: "'a list \<Rightarrow> ('a \<Rightarrow> 's \<Rightarrow> (error + unit) \<times> 's) \<Rightarrow> 's \<Rightarrow> (error + unit) \<times> 's" where
  "forM [] f = returnM ()"
| "forM (x # xs) f = bindM (f x) (\<lambda>_. forM xs f)"

fun mapM :: "('a \<Rightarrow> 's \<Rightarrow> (error + 'b) \<times> 's) \<Rightarrow> 'a list \<Rightarrow> 's \<Rightarrow> (error + 'b list) \<times> 's" where
  "mapM f [] = returnM []"
| "mapM f (x # xs) = bindM (f x) (\<lambda>y. bindM (mapM f xs) (\<lambda>ys. returnM (y # ys)))"

text \<open>\<^verbatim>\<open>v[i]\<close> on a \<^verbatim>\<open>std::vector\<close>: undefined outside the vector.\<close>

definition vec_at :: "'a list \<Rightarrow> nat \<Rightarrow> 's \<Rightarrow> (error + 'a) \<times> 's" where
  "vec_at v i = (if i < length v then returnM (v ! i) else throwM Undefined)"

subsection \<open>Calls into CUDA, NCCL and the store\<close>

text \<open>A call into the CUDA runtime, and one into NCCL: recorded, with the code it returns.\<close>

definition cuda_call :: "env \<Rightarrow> call \<Rightarrow> world \<Rightarrow> (error + cudaError_t) \<times> world" where
  "cuda_call env c w = (Inr (cuda_result env (trace w) c), w\<lparr>trace := trace w @ [c]\<rparr>)"

definition nccl_call :: "env \<Rightarrow> call \<Rightarrow> world \<Rightarrow> (error + ncclResult_t) \<times> world" where
  "nccl_call env c w = (Inr (nccl_result env (trace w) c), w\<lparr>trace := trace w @ [c]\<rparr>)"

text \<open>
  Modelled from the spec: the macros \<^verbatim>\<open>C10D_CUDA_CHECK\<close> and \<^verbatim>\<open>C10D_NCCL_CHECK\<close> of
  \<^verbatim>\<open>private/CUDAUtils.hpp\<close>, which the file uses and does not define. Section 7 of the
  specification: a failure of the accelerator API or of a communication primitive is
  raised at once as an error that carries the code.
\<close>

definition C10D_CUDA_CHECK :: "cudaError_t \<Rightarrow> 's \<Rightarrow> (error + unit) \<times> 's" where
  "C10D_CUDA_CHECK ret = (if ret = cudaSuccess then returnM () else throwM (CudaCheckFailed ret))"

definition C10D_NCCL_CHECK :: "ncclResult_t \<Rightarrow> 's \<Rightarrow> (error + unit) \<times> 's" where
  "C10D_NCCL_CHECK ret = (if ret = ncclSuccess then returnM () else throwM (NcclCheckFailed ret))"

definition cuda_checked :: "env \<Rightarrow> call \<Rightarrow> world \<Rightarrow> (error + unit) \<times> world" where
  "cuda_checked env c = bindM (cuda_call env c) C10D_CUDA_CHECK"

definition nccl_checked :: "env \<Rightarrow> call \<Rightarrow> world \<Rightarrow> (error + unit) \<times> world" where
  "nccl_checked env c = bindM (nccl_call env c) C10D_NCCL_CHECK"

text \<open>
  Modelled from the spec: the classes \<^verbatim>\<open>CUDADevice\<close>, \<^verbatim>\<open>CUDAEvent\<close>, \<^verbatim>\<open>CUDAStream\<close> and
  \<^verbatim>\<open>NCCLComm\<close> of the headers, which the file uses and does not define. Section 6 of the
  specification: select the current device by index; create an event (non-timing flag);
  create a stream; create a communicator from the participant count, the participant
  rank and the token. Each is one checked call. That \<^verbatim>\<open>CUDADevice\<close> selects the former
  device again when it goes out of scope is left out.
\<close>

definition setDevice :: "env \<Rightarrow> int \<Rightarrow> world \<Rightarrow> (error + unit) \<times> world" where
  "setDevice env device = cuda_checked env (cudaSetDevice device)"

definition CUDAEvent_create :: "env \<Rightarrow> world \<Rightarrow> (error + cudaEvent_t) \<times> world" where
  "CUDAEvent_create env w =
     bindM (cuda_checked env (cudaEventCreateWithFlags (length (trace w))))
       (\<lambda>_. returnM (length (trace w))) w"

definition CUDAStream_create :: "env \<Rightarrow> world \<Rightarrow> (error + cudaStream_t) \<times> world" where
  "CUDAStream_create env w =
     bindM (cuda_checked env (cudaStreamCreate (length (trace w))))
       (\<lambda>_. returnM (length (trace w))) w"

definition NCCLComm_create ::
  "env \<Rightarrow> int \<Rightarrow> int \<Rightarrow> ncclUniqueId \<Rightarrow> world \<Rightarrow> (error + ncclComm_t) \<times> world" where
  "NCCLComm_create env numRanks rank ncclID w =
     bindM (nccl_checked env (ncclCommInitRank (length (trace w)) numRanks ncclID rank))
       (\<lambda>_. returnM (length (trace w))) w"

text \<open>\<^verbatim>\<open>THCState_getCurrentStreamOnDevice\<close>: the stream that the caller computes on.\<close>

definition THCState_getCurrentStreamOnDevice ::
  "env \<Rightarrow> int \<Rightarrow> world \<Rightarrow> (error + cudaStream_t) \<times> world" where
  "THCState_getCurrentStreamOnDevice env device w =
     (Inr (current_stream env (trace w) device), w)"

text \<open>
  \<^verbatim>\<open>ncclGetUniqueId\<close> under \<^verbatim>\<open>C10D_NCCL_CHECK\<close> (line 230), and the size of the identifier
  in \<^verbatim>\<open>nccl.h\<close>.
\<close>

definition NCCL_UNIQUE_ID_BYTES :: nat where
  "NCCL_UNIQUE_ID_BYTES = 128"

definition getUniqueId :: "env \<Rightarrow> world \<Rightarrow> (error + ncclUniqueId) \<times> world" where
  "getUniqueId env w =
     bindM (nccl_checked env ncclGetUniqueId) (\<lambda>_. returnM (unique_id env (trace w))) w"

text \<open>
  Modelled from the spec: the store, of which the file has only the two calls. Section 6
  of the specification: \<^verbatim>\<open>set(key, value)\<close>; \<^verbatim>\<open>get(key)\<close> returns the bytes and blocks until
  the key is published. A key that is not in the store of the model is a key that no
  process ever sets: the \<^verbatim>\<open>get\<close> does not return.
\<close>

definition Store_set :: "nat \<Rightarrow> string \<Rightarrow> 8 word list \<Rightarrow> world \<Rightarrow> (error + unit) \<times> world" where
  "Store_set st key val w =
     (Inr (), w\<lparr>trace := trace w @ [store_set st key val],
                stores := (stores w)(st := (stores w st)(key \<mapsto> val))\<rparr>)"

definition Store_get :: "nat \<Rightarrow> string \<Rightarrow> world \<Rightarrow> (error + 8 word list) \<times> world" where
  "Store_get st key w =
     (case stores w st key of
        None \<Rightarrow> (Inl Blocked, w\<lparr>trace := trace w @ [store_get st key]\<rparr>)
      | Some val \<Rightarrow> (Inr val, w\<lparr>trace := trace w @ [store_get st key]\<rparr>))"

subsection \<open>The two tables and \<^verbatim>\<open>getNcclDataType\<close>\<close>

text \<open>Lines 14-19.\<close>

fun ncclOp :: "ReduceOp \<Rightarrow> ncclRedOp_t" where
  "ncclOp ReduceOp_MIN = ncclMin"
| "ncclOp ReduceOp_MAX = ncclMax"
| "ncclOp ReduceOp_SUM = ncclSum"
| "ncclOp ReduceOp_PRODUCT = ncclProd"

text \<open>Lines 22-30: the table, and lines 33-39: the lookup that throws for a missing type.\<close>

fun ncclDataType :: "ScalarType \<Rightarrow> ncclDataType_t option" where
  "ncclDataType kChar = Some ncclInt8"
| "ncclDataType kByte = Some ncclUint8"
| "ncclDataType kFloat = Some ncclFloat"
| "ncclDataType kDouble = Some ncclDouble"
| "ncclDataType kInt = Some ncclInt32"
| "ncclDataType kLong = Some ncclInt64"
| "ncclDataType kHalf = Some ncclHalf"
| "ncclDataType kShort = None"

definition getNcclDataType :: "ScalarType \<Rightarrow> error + ncclDataType_t" where
  "getNcclDataType type =
     (case ncclDataType type of
        Some t \<Rightarrow> Inr t
      | None \<Rightarrow> Inl (RuntimeError ''Unsupported data type for NCCL process group''))"

text \<open>Lines 55-61.\<close>

definition getDevicesOfTensors :: "Tensor list \<Rightarrow> int list" where
  "getDevicesOfTensors tensors = map get_device tensors"

subsection \<open>The work handle\<close>

text \<open>The members of \<^verbatim>\<open>WorkNCCL\<close>: the devices of the call and one event for each.\<close>

record WorkNCCL =
  m_devices :: "int list"
  m_cudaEvents :: "cudaEvent_t list"

text \<open>
  The constructor (lines 85-94): for each device in order, select it and create an
  event. The vector of events has the size of \<^verbatim>\<open>devices\<close>.
\<close>

definition WorkNCCL_ctor :: "env \<Rightarrow> int list \<Rightarrow> world \<Rightarrow> (error + WorkNCCL) \<times> world" where
  "WorkNCCL_ctor env devices =
     bindM (mapM (\<lambda>device. bindM (setDevice env device) (\<lambda>_. CUDAEvent_create env)) devices)
       (\<lambda>events. returnM \<lparr>m_devices = devices, m_cudaEvents = events\<rparr>)"

text \<open>\<^verbatim>\<open>isCompleted\<close> (lines 99-101).\<close>

definition isCompleted :: "env \<Rightarrow> WorkNCCL \<Rightarrow> world \<Rightarrow> (error + bool) \<times> world" where
  "isCompleted env work = returnM True"

text \<open>
  \<^verbatim>\<open>finishedGPUExecution\<close> (lines 104-119): the loop over the indices \<open>i\<close> of \<^verbatim>\<open>devices_\<close>,
  which leaves with \<^verbatim>\<open>false\<close> at the first event that is not ready.
\<close>

fun finishedGPUExecution_loop ::
  "env \<Rightarrow> int list \<Rightarrow> cudaEvent_t list \<Rightarrow> nat list \<Rightarrow> world \<Rightarrow> (error + bool) \<times> world" where
  "finishedGPUExecution_loop env devices cudaEvents [] = returnM True"
| "finishedGPUExecution_loop env devices cudaEvents (i # rest) =
     bindM (setDevice env (devices ! i)) (\<lambda>_.
     bindM (vec_at cudaEvents i) (\<lambda>cudaEvent.
     bindM (cuda_call env (cudaEventQuery cudaEvent)) (\<lambda>ret.
     bindM (if ret \<noteq> cudaSuccess \<and> ret \<noteq> cudaErrorNotReady then C10D_CUDA_CHECK ret
            else returnM ()) (\<lambda>_.
     if ret = cudaErrorNotReady then returnM False
     else finishedGPUExecution_loop env devices cudaEvents rest))))"

definition finishedGPUExecution :: "env \<Rightarrow> WorkNCCL \<Rightarrow> world \<Rightarrow> (error + bool) \<times> world" where
  "finishedGPUExecution env work =
     finishedGPUExecution_loop env (m_devices work) (m_cudaEvents work)
       [0 ..< length (m_devices work)]"

text \<open>
  \<^verbatim>\<open>synchronize\<close> (lines 128-138): for each device, the stream that the caller computes
  on waits for the event of the work. \<^verbatim>\<open>lazyInitCUDA\<close> has run when the process group was
  made and only hands out the THC state here.
\<close>

definition synchronize :: "env \<Rightarrow> WorkNCCL \<Rightarrow> world \<Rightarrow> (error + unit) \<times> world" where
  "synchronize env work =
     forM [0 ..< length (m_devices work)] (\<lambda>i.
       bindM (setDevice env (m_devices work ! i)) (\<lambda>_.
       bindM (THCState_getCurrentStreamOnDevice env (m_devices work ! i)) (\<lambda>thcStream.
       bindM (vec_at (m_cudaEvents work) i) (\<lambda>cudaEvent.
       cuda_checked env (cudaStreamWaitEvent thcStream cudaEvent)))))"

text \<open>\<^verbatim>\<open>wait\<close> (lines 122-125).\<close>

definition wait :: "env \<Rightarrow> WorkNCCL \<Rightarrow> world \<Rightarrow> (error + bool) \<times> world" where
  "wait env work = bindM (synchronize env work) (\<lambda>_. returnM True)"

text \<open>\<^verbatim>\<open>isSuccess\<close> (lines 140-142) and \<^verbatim>\<open>exception\<close> (lines 144-149), which only throws.\<close>

definition isSuccess :: "WorkNCCL \<Rightarrow> bool" where
  "isSuccess work = True"

definition err_exception_not_supported :: error where
  "err_exception_not_supported = RuntimeError
     (''exception() is not supported by NCCL process group'' @ [CHR 0x27] @
      ''s work, since isSuccess() will always return true, and '' @
      ''isCompleted() and wait() will either succeed or throw'')"

definition exception :: "WorkNCCL \<Rightarrow> error + error" where
  "exception work = Inl err_exception_not_supported"

text \<open>
  The poll that section 4.6 of the specification describes, in the specification's
  words: false if any event is pending, true when all are ready, an error when a query
  fails. \<open>status\<close> is what a query of an event reports. This definition follows the
  specification, not the source; it is here to be compared with \<open>isCompleted\<close>.
\<close>

definition spec_poll :: "(cudaEvent_t \<Rightarrow> cudaError_t) \<Rightarrow> cudaEvent_t list \<Rightarrow> error + bool" where
  "spec_poll status events =
     (case find (\<lambda>e. status e \<noteq> cudaSuccess \<and> status e \<noteq> cudaErrorNotReady) events of
        Some e \<Rightarrow> Inl (CudaCheckFailed (status e))
      | None \<Rightarrow> Inr (list_all (\<lambda>e. status e = cudaSuccess) events))"

text \<open>
  What the loop of \<open>finishedGPUExecution\<close> does with the reports: the first event that
  is not ready decides, pending or failed.
\<close>

definition first_not_ready :: "(cudaEvent_t \<Rightarrow> cudaError_t) \<Rightarrow> cudaEvent_t list \<Rightarrow> error + bool" where
  "first_not_ready status events =
     (case find (\<lambda>e. status e \<noteq> cudaSuccess) events of
        None \<Rightarrow> Inr True
      | Some e \<Rightarrow>
          if status e = cudaErrorNotReady then Inr False else Inl (CudaCheckFailed (status e)))"

text \<open>An environment in which every call succeeds, and a world with one store.\<close>

definition env_ok :: env where
  "env_ok =
     \<lparr>cuda_result = (\<lambda>_ _. cudaSuccess), nccl_result = (\<lambda>_ _. ncclSuccess),
      current_stream = (\<lambda>_ _. 0), unique_id = (\<lambda>_. replicate 128 7)\<rparr>"

text \<open>An environment in which every event is still pending, all else as before.\<close>

definition env_pending :: env where
  "env_pending =
     env_ok\<lparr>cuda_result :=
       (\<lambda>_ c. case c of cudaEventQuery _ \<Rightarrow> cudaErrorNotReady | _ \<Rightarrow> cudaSuccess)\<rparr>"

text \<open>An environment in which every query of an event fails with code 77.\<close>

definition env_failing :: env where
  "env_failing =
     env_ok\<lparr>cuda_result :=
       (\<lambda>_ c. case c of cudaEventQuery _ \<Rightarrow> cudaErrorOther 77 | _ \<Rightarrow> cudaSuccess)\<rparr>"

subsection \<open>\<^verbatim>\<open>std::stoull\<close>\<close>

text \<open>
  \<^verbatim>\<open>std::stoull\<close> in base ten, as \<^verbatim>\<open>strtoull\<close> reads a string: white space, an optional
  sign, then the longest run of digits. No digit is \<^verbatim>\<open>std::invalid_argument\<close>, a value
  that does not fit 64 bits is \<^verbatim>\<open>std::out_of_range\<close>, and a minus sign negates modulo
  \<open>2 ^ 64\<close>.
\<close>

definition is_space :: "char \<Rightarrow> bool" where
  "is_space c = (c \<in> set [CHR '' '', CHR 0x09, CHR 0x0A, CHR 0x0B, CHR 0x0C, CHR 0x0D])"

definition is_digit :: "char \<Rightarrow> bool" where
  "is_digit c = (c \<in> set decimal_digits)"

definition digit_value :: "char \<Rightarrow> int" where
  "digit_value c = of_char c - 48"

definition decimal_value :: "string \<Rightarrow> int" where
  "decimal_value ds = foldl (\<lambda>v c. 10 * v + digit_value c) 0 ds"

definition stoull :: "string \<Rightarrow> error + int" where
  "stoull str =
     (let s = dropWhile is_space str;
          negative = (case s of [] \<Rightarrow> False | c # _ \<Rightarrow> c = CHR ''-'');
          s' = (case s of [] \<Rightarrow> s | c # t \<Rightarrow> if c = CHR ''-'' \<or> c = CHR ''+'' then t else s);
          ds = takeWhile is_digit s'
      in if ds = [] then Inl InvalidArgument
         else if 2 ^ 64 \<le> decimal_value ds then Inl OutOfRange
         else Inr (if negative then (2 ^ 64 - decimal_value ds) mod 2 ^ 64
                   else decimal_value ds))"

text \<open>An \<^verbatim>\<open>unsigned long long\<close> as the \<^verbatim>\<open>ssize_t\<close> key of the map of counters.\<close>

definition to_ssize_t :: "int \<Rightarrow> int" where
  "to_ssize_t x = (x + 2 ^ 63) mod 2 ^ 64 - 2 ^ 63"

subsection \<open>The process group\<close>

text \<open>
  The members of \<^verbatim>\<open>ProcessGroupNCCL\<close> that the file uses: \<^verbatim>\<open>rank_\<close> and \<^verbatim>\<open>size_\<close> of the
  base class (\<^verbatim>\<open>getRank()\<close>, \<^verbatim>\<open>getSize()\<close>), the store, \<^verbatim>\<open>thcState_->numDevices\<close>, the
  identifier of the group and the three caches, each a map from the key of a device list.
\<close>

record ProcessGroupNCCL =
  m_rank :: int
  m_size :: int
  m_store :: nat
  m_numDevices :: int
  m_processGroupID :: string
  m_devNCCLCommMap :: "string \<rightharpoonup> ncclComm_t list"
  m_ncclStreams :: "string \<rightharpoonup> cudaStream_t list"
  m_ncclEvents :: "string \<rightharpoonup> cudaEvent_t list"

text \<open>
  The constructor (lines 155-167). \<open>numDevices\<close> is the number of devices of the THC
  state that \<^verbatim>\<open>lazyInitCUDA\<close> returns.
\<close>

definition ProcessGroupNCCL_ctor ::
  "nat \<Rightarrow> int \<Rightarrow> int \<Rightarrow> int \<Rightarrow> world \<Rightarrow> ProcessGroupNCCL \<times> world" where
  "ProcessGroupNCCL_ctor store rank size' numDevices w =
     (let w1 = w\<lparr>m_processGroupCounter := m_processGroupCounter w + 1\<rparr>;
          w2 = w1\<lparr>m_pgUniqueNCCLIDCnt :=
                    (m_pgUniqueNCCLIDCnt w1)(m_processGroupCounter w1 \<mapsto> - 1)\<rparr>
      in (\<lparr>m_rank = rank, m_size = size', m_store = store, m_numDevices = numDevices,
           m_processGroupID = to_string (m_processGroupCounter w2),
           m_devNCCLCommMap = Map.empty, m_ncclStreams = Map.empty,
           m_ncclEvents = Map.empty\<rparr>, w2))"

text \<open>The destructor (lines 169-172).\<close>

definition ProcessGroupNCCL_dtor :: "ProcessGroupNCCL \<Rightarrow> world \<Rightarrow> (error + unit) \<times> world" where
  "ProcessGroupNCCL_dtor pg =
     bindM (liftE (stoull (m_processGroupID pg))) (\<lambda>key w.
       (Inr (), w\<lparr>m_pgUniqueNCCLIDCnt :=
                    (m_pgUniqueNCCLIDCnt w)(to_ssize_t key := None)\<rparr>))"

text \<open>
  \<^verbatim>\<open>m[k]\<close> on a \<^verbatim>\<open>std::unordered_map\<close> of counters: a key that is missing is entered with
  the value 0.
\<close>

definition counter_at :: "(int \<rightharpoonup> int) \<Rightarrow> int \<Rightarrow> int" where
  "counter_at m k = (case m k of None \<Rightarrow> 0 | Some c \<Rightarrow> c)"

text \<open>
  \<^verbatim>\<open>broadcastUniqueNCCLID\<close> (lines 174-207). The argument is the identifier that the
  pointer refers to when the method is called, the result the one it refers to when the
  method returns. An identifier has \<^verbatim>\<open>NCCL_UNIQUE_ID_BYTES\<close> bytes.
\<close>

definition err_unexpected_id_length :: error where
  "err_unexpected_id_length = RuntimeError
     ''Unexpected NCCL unique ID length received from the store''"

definition broadcastUniqueNCCLID ::
  "ProcessGroupNCCL \<Rightarrow> ncclUniqueId \<Rightarrow> world \<Rightarrow> (error + ncclUniqueId) \<times> world" where
  "broadcastUniqueNCCLID pg ncclID =
     bindM (liftE (stoull (m_processGroupID pg))) (\<lambda>processGroupIDKey.
     bindM (\<lambda>w.
       let uniqueNCCLIDCnt =
             counter_at (m_pgUniqueNCCLIDCnt w) (to_ssize_t processGroupIDKey) + 1
       in (Inr uniqueNCCLIDCnt,
           w\<lparr>m_pgUniqueNCCLIDCnt :=
               (m_pgUniqueNCCLIDCnt w)(to_ssize_t processGroupIDKey \<mapsto> uniqueNCCLIDCnt)\<rparr>))
       (\<lambda>uniqueNCCLIDCnt.
     let storeKey = m_processGroupID pg @ ''_'' @ to_string uniqueNCCLIDCnt in
     if m_rank pg = 0
     then bindM (Store_set (m_store pg) storeKey (take NCCL_UNIQUE_ID_BYTES ncclID))
            (\<lambda>_. returnM ncclID)
     else bindM (Store_get (m_store pg) storeKey) (\<lambda>ncclIDVal.
            if length ncclIDVal \<noteq> NCCL_UNIQUE_ID_BYTES then throwM err_unexpected_id_length
            else returnM (take NCCL_UNIQUE_ID_BYTES ncclIDVal))))"

text \<open>
  The two integers of lines 249-250 and the one of line 427. \<^verbatim>\<open>devices.size()\<close> is a
  \<^verbatim>\<open>size_t\<close>: the \<^verbatim>\<open>int\<close> operands are converted to \<^verbatim>\<open>size_t\<close>, the arithmetic is that of
  \<^verbatim>\<open>size_t\<close>, and the result is converted to \<^verbatim>\<open>int\<close>.
\<close>

definition size_t_mul :: "int \<Rightarrow> int \<Rightarrow> int" where
  "size_t_mul a b = (a * b) mod 2 ^ 64"

definition size_t_add :: "int \<Rightarrow> int \<Rightarrow> int" where
  "size_t_add a b = (a + b) mod 2 ^ 64"

definition getNCCLComm_numRanks :: "int \<Rightarrow> nat \<Rightarrow> int" where
  "getNCCLComm_numRanks size' n = to_int (size_t_mul (to_size_t size') (int n))"

definition getNCCLComm_rank :: "int \<Rightarrow> nat \<Rightarrow> nat \<Rightarrow> int" where
  "getNCCLComm_rank rank n i =
     to_int (size_t_add (size_t_mul (to_size_t rank) (int n)) (int i))"

definition broadcast_root :: "int \<Rightarrow> nat \<Rightarrow> int \<Rightarrow> int" where
  "broadcast_root rootRank n rootTensor =
     to_int (size_t_add (size_t_mul (to_size_t rootRank) (int n)) (to_size_t rootTensor))"

text \<open>
  \<^verbatim>\<open>emplace\<close> on a map, which leaves an entry that is there, and \<^verbatim>\<open>m[k]\<close> on each of the
  three caches, which enters an empty vector for a key that is missing.
\<close>

definition emplace :: "('k \<rightharpoonup> 'v) \<Rightarrow> 'k \<Rightarrow> 'v \<Rightarrow> ('k \<rightharpoonup> 'v)" where
  "emplace m k v = (if k \<in> dom m then m else m(k \<mapsto> v))"

definition devNCCLCommMap_at ::
  "string \<Rightarrow> ProcessGroupNCCL \<times> world \<Rightarrow> (error + ncclComm_t list) \<times> (ProcessGroupNCCL \<times> world)" where
  "devNCCLCommMap_at key s =
     (case m_devNCCLCommMap (fst s) key of
        Some v \<Rightarrow> (Inr v, s)
      | None \<Rightarrow>
          (Inr [], ((fst s)\<lparr>m_devNCCLCommMap := (m_devNCCLCommMap (fst s))(key \<mapsto> [])\<rparr>, snd s)))"

definition ncclStreams_at ::
  "string \<Rightarrow> ProcessGroupNCCL \<times> world \<Rightarrow> (error + cudaStream_t list) \<times> (ProcessGroupNCCL \<times> world)" where
  "ncclStreams_at key s =
     (case m_ncclStreams (fst s) key of
        Some v \<Rightarrow> (Inr v, s)
      | None \<Rightarrow>
          (Inr [], ((fst s)\<lparr>m_ncclStreams := (m_ncclStreams (fst s))(key \<mapsto> [])\<rparr>, snd s)))"

definition ncclEvents_at ::
  "string \<Rightarrow> ProcessGroupNCCL \<times> world \<Rightarrow> (error + cudaEvent_t list) \<times> (ProcessGroupNCCL \<times> world)" where
  "ncclEvents_at key s =
     (case m_ncclEvents (fst s) key of
        Some v \<Rightarrow> (Inr v, s)
      | None \<Rightarrow>
          (Inr [], ((fst s)\<lparr>m_ncclEvents := (m_ncclEvents (fst s))(key \<mapsto> [])\<rparr>, snd s)))"

text \<open>
  \<^verbatim>\<open>getNCCLComm\<close> (lines 209-272), with the part after the lookup (lines 222-271) as
  \<open>getNCCLComm_create\<close>, which reads the rank, the size, the store and the identifier of
  the group as they are when the method is called. The three local vectors of the source
  are filled at the same index in each round of the loop; here each round yields the
  communicator, the stream and the event of its device. On the ranks other than 0 the
  identifier is not initialised before \<open>broadcastUniqueNCCLID\<close> overwrites it; the model
  starts it as zeros.
\<close>

definition err_devices_not_known :: error where
  "err_devices_not_known = RuntimeError
     ''Not able to create/get the NCCL Communicator since the GPU devices are not known''"

definition getNCCLComm_create ::
  "env \<Rightarrow> ProcessGroupNCCL \<Rightarrow> string \<Rightarrow> int list \<Rightarrow> ProcessGroupNCCL \<times> world \<Rightarrow>
   (error + ncclComm_t list) \<times> (ProcessGroupNCCL \<times> world)" where
  "getNCCLComm_create env pg devicesKey devices =
     bindM (liftW (if m_rank pg = 0 then getUniqueId env
                   else returnM (replicate NCCL_UNIQUE_ID_BYTES 0))) (\<lambda>ncclID0.
     bindM (liftW (broadcastUniqueNCCLID pg ncclID0)) (\<lambda>ncclID.
     bindM (liftW (nccl_checked env ncclGroupStart)) (\<lambda>_.
     bindM (liftW (mapM (\<lambda>i.
       bindM (setDevice env (devices ! i)) (\<lambda>_.
       bindM (NCCLComm_create env
                (getNCCLComm_numRanks (m_size pg) (length devices))
                (getNCCLComm_rank (m_rank pg) (length devices) i) ncclID) (\<lambda>comm.
       bindM (CUDAStream_create env) (\<lambda>stream.
       bindM (CUDAEvent_create env) (\<lambda>event.
       returnM (comm, stream, event))))))
       [0 ..< length devices])) (\<lambda>created.
     bindM (liftW (nccl_checked env ncclGroupEnd)) (\<lambda>_.
     bindM (\<lambda>t. (Inr (),
       ((fst t)\<lparr>m_devNCCLCommMap :=
                   emplace (m_devNCCLCommMap (fst t)) devicesKey (map fst created),
                 m_ncclStreams :=
                   emplace (m_ncclStreams (fst t)) devicesKey (map (fst \<circ> snd) created),
                 m_ncclEvents :=
                   emplace (m_ncclEvents (fst t)) devicesKey (map (snd \<circ> snd) created)\<rparr>,
        snd t))) (\<lambda>_.
     devNCCLCommMap_at devicesKey))))))"

definition getNCCLComm ::
  "env \<Rightarrow> string \<Rightarrow> int list \<Rightarrow> ProcessGroupNCCL \<times> world \<Rightarrow>
   (error + ncclComm_t list) \<times> (ProcessGroupNCCL \<times> world)" where
  "getNCCLComm env devicesKey devices s =
     (if devicesKey = [] then throwM err_devices_not_known s
      else if devicesKey \<in> dom (m_devNCCLCommMap (fst s)) then devNCCLCommMap_at devicesKey s
      else getNCCLComm_create env (fst s) devicesKey devices s)"

text \<open>\<^verbatim>\<open>syncStreams\<close> (lines 64-81).\<close>

definition syncStreams ::
  "env \<Rightarrow> int list \<Rightarrow> cudaEvent_t list \<Rightarrow> cudaStream_t list \<Rightarrow> world \<Rightarrow> (error + unit) \<times> world" where
  "syncStreams env devices ncclEvents ncclStreams =
     forM [0 ..< length devices] (\<lambda>i.
       bindM (setDevice env (devices ! i)) (\<lambda>_.
       bindM (THCState_getCurrentStreamOnDevice env (devices ! i)) (\<lambda>currentThcStream.
       bindM (vec_at ncclStreams i) (\<lambda>ncclStream.
       bindM (vec_at ncclEvents i) (\<lambda>ncclEvent.
       bindM (cuda_checked env (cudaEventRecord ncclEvent currentThcStream)) (\<lambda>_.
       cuda_checked env (cudaStreamWaitEvent ncclStream ncclEvent)))))))"

text \<open>
  The options of the two collectives, and the ratio of output to input elements that
  \<^verbatim>\<open>tensorCheckHelper\<close> takes when a caller passes none. Modelled from the spec: the
  default argument is in the header, which is not part of the source; section 4.4 of the
  specification gives the ratio 1 for all-reduce and broadcast.
\<close>

record AllreduceOptions =
  reduceOp :: ReduceOp

record BroadcastOptions =
  rootRank :: int
  rootTensor :: int

definition default_outputOverInput :: int where
  "default_outputOverInput = 1"

text \<open>
  The part that the two collectives share, after the validation and up to the work
  (lines 356-364 and 406-414): the key, the communicators, the streams in order, and
  the work with its events. It yields what the rest of the method uses.
\<close>

definition collective_prologue ::
  "env \<Rightarrow> Tensor list \<Rightarrow> ProcessGroupNCCL \<times> world \<Rightarrow>
   (error + int list \<times> string \<times> ncclComm_t list \<times> WorkNCCL) \<times> (ProcessGroupNCCL \<times> world)" where
  "collective_prologue env tensors =
     (let devices = getDevicesOfTensors tensors;
          key = getKeyFromDevices devices
      in
      bindM (getNCCLComm env key devices) (\<lambda>ncclComms.
      bindM (ncclEvents_at key) (\<lambda>events.
      bindM (ncclStreams_at key) (\<lambda>streams.
      bindM (liftW (syncStreams env devices events streams)) (\<lambda>_.
      bindM (liftW (WorkNCCL_ctor env devices)) (\<lambda>work.
      returnM (devices, key, ncclComms, work)))))))"

text \<open>The last loop of the two collectives (lines 390-396 and 441-447).\<close>

definition record_events ::
  "env \<Rightarrow> Tensor list \<Rightarrow> string \<Rightarrow> WorkNCCL \<Rightarrow> ProcessGroupNCCL \<times> world \<Rightarrow>
   (error + unit) \<times> (ProcessGroupNCCL \<times> world)" where
  "record_events env tensors key work =
     forM [0 ..< length tensors] (\<lambda>i.
       bindM (ncclStreams_at key) (\<lambda>streams.
       bindM (vec_at streams i) (\<lambda>ncclStream.
       bindM (vec_at (m_cudaEvents work) i) (\<lambda>cudaEvent.
       liftW (cuda_checked env (cudaEventRecord cudaEvent ncclStream))))))"

text \<open>
  \<^verbatim>\<open>allreduce\<close> (lines 351-399), with the loop that issues the calls (lines 373-385) as
  \<open>allreduce_calls\<close>.
\<close>

definition allreduce_calls ::
  "env \<Rightarrow> Tensor list \<Rightarrow> AllreduceOptions \<Rightarrow> int list \<Rightarrow> string \<Rightarrow> ncclComm_t list \<Rightarrow>
   ProcessGroupNCCL \<times> world \<Rightarrow> (error + unit) \<times> (ProcessGroupNCCL \<times> world)" where
  "allreduce_calls env tensors opts devices key ncclComms =
     forM [0 ..< length tensors] (\<lambda>i.
       bindM (liftW (setDevice env (devices ! i))) (\<lambda>_.
       bindM (ncclStreams_at key) (\<lambda>streams.
       bindM (vec_at streams i) (\<lambda>ncclStream.
       bindM (liftE (getNcclDataType (scalarType (tensors ! i)))) (\<lambda>dataType.
       bindM (vec_at ncclComms i) (\<lambda>comm.
       liftW (nccl_checked env
         (ncclAllReduce (data_ptr (tensors ! i)) (data_ptr (tensors ! i))
            (numel (tensors ! i)) dataType (ncclOp (reduceOp opts)) comm ncclStream))))))))"

definition allreduce ::
  "env \<Rightarrow> Tensor list \<Rightarrow> AllreduceOptions \<Rightarrow> ProcessGroupNCCL \<times> world \<Rightarrow>
   (error + WorkNCCL) \<times> (ProcessGroupNCCL \<times> world)" where
  "allreduce env tensors opts s =
     bindM (liftE (tensorCheckHelper (m_numDevices (fst s)) tensors tensors
                     default_outputOverInput)) (\<lambda>_.
     bindM (collective_prologue env tensors) (\<lambda>(devices, key, ncclComms, work).
     bindM (liftW (nccl_checked env ncclGroupStart)) (\<lambda>_.
     bindM (allreduce_calls env tensors opts devices key ncclComms) (\<lambda>_.
     bindM (liftW (nccl_checked env ncclGroupEnd)) (\<lambda>_.
     bindM (record_events env tensors key work) (\<lambda>_.
     returnM work)))))) s"

text \<open>
  \<^verbatim>\<open>broadcast\<close> (lines 401-450), with the loop that issues the calls (lines 423-436) as
  \<open>broadcast_calls\<close>.
\<close>

definition broadcast_calls ::
  "env \<Rightarrow> Tensor list \<Rightarrow> BroadcastOptions \<Rightarrow> int list \<Rightarrow> string \<Rightarrow> ncclComm_t list \<Rightarrow>
   ProcessGroupNCCL \<times> world \<Rightarrow> (error + unit) \<times> (ProcessGroupNCCL \<times> world)" where
  "broadcast_calls env tensors opts devices key ncclComms =
     forM [0 ..< length tensors] (\<lambda>i.
       bindM (liftW (setDevice env (devices ! i))) (\<lambda>_.
       bindM (ncclStreams_at key) (\<lambda>streams.
       bindM (vec_at streams i) (\<lambda>ncclStream.
       bindM (liftE (getNcclDataType (scalarType (tensors ! i)))) (\<lambda>dataType.
       bindM (vec_at ncclComms i) (\<lambda>comm.
       liftW (nccl_checked env
         (ncclBcast (data_ptr (tensors ! i)) (numel (tensors ! i)) dataType
            (broadcast_root (rootRank opts) (length tensors) (rootTensor opts))
            comm ncclStream))))))))"

definition broadcast ::
  "env \<Rightarrow> Tensor list \<Rightarrow> BroadcastOptions \<Rightarrow> ProcessGroupNCCL \<times> world \<Rightarrow>
   (error + WorkNCCL) \<times> (ProcessGroupNCCL \<times> world)" where
  "broadcast env tensors opts s =
     bindM (liftE (tensorCheckHelper (m_numDevices (fst s)) tensors tensors
                     default_outputOverInput)) (\<lambda>_.
     bindM (collective_prologue env tensors) (\<lambda>(devices, key, ncclComms, work).
     bindM (liftW (nccl_checked env ncclGroupStart)) (\<lambda>_.
     bindM (broadcast_calls env tensors opts devices key ncclComms) (\<lambda>_.
     bindM (liftW (nccl_checked env ncclGroupEnd)) (\<lambda>_.
     bindM (record_events env tensors key work) (\<lambda>_.
     returnM work)))))) s"

subsection \<open>Runs of a process\<close>

text \<open>
  What one process does to the static members, step by step: it constructs a process
  group, destroys the group that it constructed as number \<open>k\<close>, or lets that group
  exchange an identifier. \<open>run_ops\<close> keeps the groups in the order of their
  construction.
\<close>

datatype pg_op =
    Construct nat int int int
  | Destroy nat
  | Exchange nat ncclUniqueId

fun run_ops :: "pg_op list \<Rightarrow> ProcessGroupNCCL list \<times> world \<Rightarrow> ProcessGroupNCCL list \<times> world" where
  "run_ops [] s = s"
| "run_ops (Construct store rank size' numDevices # ops) s =
     run_ops ops
       (fst s @ [fst (ProcessGroupNCCL_ctor store rank size' numDevices (snd s))],
        snd (ProcessGroupNCCL_ctor store rank size' numDevices (snd s)))"
| "run_ops (Destroy k # ops) s =
     run_ops ops
       (fst s, if k < length (fst s) then snd (ProcessGroupNCCL_dtor (fst s ! k) (snd s))
               else snd s)"
| "run_ops (Exchange k ncclID # ops) s =
     run_ops ops
       (fst s, if k < length (fst s) then snd (broadcastUniqueNCCLID (fst s ! k) ncclID (snd s))
               else snd s)"



fun store_key :: "call \<Rightarrow> string option" where
  "store_key (store_set st key val) = Some key"
| "store_key (store_get st key) = Some key"
| "store_key _ = None"

subsection \<open>Notions for the proofs about methods with effects\<close>

text \<open>
  A method started in a state that satisfies \<open>P\<close> ends in a state that satisfies \<open>Q\<close>
  of its result when it returns, and \<open>E\<close> when it throws.
\<close>

definition triple ::
  "('s \<Rightarrow> bool) \<Rightarrow> ('s \<Rightarrow> (error + 'a) \<times> 's) \<Rightarrow> ('a \<Rightarrow> 's \<Rightarrow> bool) \<Rightarrow> ('s \<Rightarrow> bool) \<Rightarrow> bool" where
  "triple P m Q E = (\<forall>s. P s \<longrightarrow> (case m s of (Inl e, s') \<Rightarrow> E s' | (Inr x, s') \<Rightarrow> Q x s'))"

text \<open>
  The calls of a trace that a projection selects, in order, and the calls that none of
  the projections below selects.
\<close>

definition emitted :: "(call \<Rightarrow> 'x option) \<Rightarrow> call list \<Rightarrow> 'x list" where
  "emitted proj t = List.map_filter proj t"

text \<open>
  A method is quiet for a projection when it leaves the selected calls of the trace as
  they are, whether it returns or throws. \<open>tr\<close> reads the trace off the state.
\<close>

definition quiet_on ::
  "('s \<Rightarrow> call list) \<Rightarrow> (call \<Rightarrow> 'x option) \<Rightarrow> ('s \<Rightarrow> (error + 'a) \<times> 's) \<Rightarrow> bool" where
  "quiet_on tr proj m =
     (\<forall>a. triple (\<lambda>s. emitted proj (tr s) = a) m (\<lambda>_ s. emitted proj (tr s) = a)
        (\<lambda>s. emitted proj (tr s) = a))"

text \<open>A method keeps \<open>f\<close> when \<open>f\<close> of the state is the same after it, whether it returns or throws.\<close>

definition keeps :: "('s \<Rightarrow> 'c) \<Rightarrow> ('s \<Rightarrow> (error + 'a) \<times> 's) \<Rightarrow> bool" where
  "keeps f m = (\<forall>s. f (snd (m s)) = f s)"

fun plain_call :: "call \<Rightarrow> bool" where
  "plain_call (ncclCommInitRank comm numRanks ncclID rank) = False"
| "plain_call (ncclAllReduce sendbuff recvbuff count dataType op comm stream) = False"
| "plain_call (ncclBcast buff count dataType root comm stream) = False"
| "plain_call _ = True"

text \<open>
  The source and destination pointers and the count of an all-reduce call; the
  participant count and rank of a communicator creation; the root of a broadcast call.
\<close>

fun allreduce_buffers :: "call \<Rightarrow> (nat \<times> nat \<times> 64 word) option" where
  "allreduce_buffers (ncclAllReduce sendbuff recvbuff count dataType op comm stream) =
     Some (sendbuff, recvbuff, count)"
| "allreduce_buffers _ = None"

fun comm_init_ranks :: "call \<Rightarrow> (int \<times> int) option" where
  "comm_init_ranks (ncclCommInitRank comm numRanks ncclID rank) = Some (numRanks, rank)"
| "comm_init_ranks _ = None"

fun bcast_root_of :: "call \<Rightarrow> int option" where
  "bcast_root_of (ncclBcast buff count dataType root comm stream) = Some root"
| "bcast_root_of _ = None"


text \<open>
  The states of a process group that a program can reach: the constructor makes the
  group, the methods of the file change it, and the world around it may change in any
  way between the calls.
\<close>

inductive reachable :: "ProcessGroupNCCL \<times> world \<Rightarrow> bool" where
  constructed: "reachable (ProcessGroupNCCL_ctor store rank size' numDevices w)"
| got: "reachable s \<Longrightarrow> reachable (snd (getNCCLComm env devicesKey devices s))"
| allreduced: "reachable s \<Longrightarrow> reachable (snd (allreduce env tensors opts s))"
| broadcasted: "reachable s \<Longrightarrow> reachable (snd (broadcast env tensors bopts s))"
| elsewhere: "reachable (pg, w) \<Longrightarrow> reachable (pg, w')"

text \<open>
  What can become of a state: \<open>evolves s t\<close> when \<open>t\<close> is \<open>s\<close> after any number of calls
  of the methods and of changes of the world around the group.
\<close>

inductive evolves :: "ProcessGroupNCCL \<times> world \<Rightarrow> ProcessGroupNCCL \<times> world \<Rightarrow> bool" where
  unchanged: "evolves s s"
| then_got: "evolves s t \<Longrightarrow> evolves s (snd (getNCCLComm env devicesKey devices t))"
| then_allreduced: "evolves s t \<Longrightarrow> evolves s (snd (allreduce env tensors opts t))"
| then_broadcasted: "evolves s t \<Longrightarrow> evolves s (snd (broadcast env tensors bopts t))"
| then_elsewhere: "evolves s (pg, w) \<Longrightarrow> evolves s (pg, w')"

text \<open>
  Tensors for the examples: a dense, contiguous float tensor of four elements on device
  \<open>d\<close> at address \<open>p\<close>, and a tensor in host memory.
\<close>

definition cuda_tensor :: "int \<Rightarrow> nat \<Rightarrow> Tensor" where
  "cuda_tensor d p =
     \<lparr>is_cuda = True, is_sparse = False, scalarType = kFloat, numel = 4,
      is_contiguous = True, get_device = d, data_ptr = p\<rparr>"

definition cpu_tensor :: "int \<Rightarrow> nat \<Rightarrow> Tensor" where
  "cpu_tensor d p = (cuda_tensor d p)\<lparr>is_cuda := False\<rparr>"

section \<open>Decimal strings\<close>

lemma length_decimal_digits: "length decimal_digits = 10"
  by (simp add: decimal_digits_def)

lemma distinct_decimal_digits: "distinct decimal_digits"
  by (simp add: decimal_digits_def)

lemma is_digit_digit_char: "n < 10 \<Longrightarrow> is_digit (digit_char n)"
  by (simp add: is_digit_def digit_char_def length_decimal_digits)

lemma digit_char_inj: "m < 10 \<Longrightarrow> n < 10 \<Longrightarrow> digit_char m = digit_char n \<Longrightarrow> m = n"
  by (simp add: digit_char_def nth_eq_iff_index_eq distinct_decimal_digits
      length_decimal_digits)

lemma digits_nonempty: "digits n \<noteq> []"
  by (subst digits.simps) simp

lemma digits_all_digit: "c \<in> set (digits n) \<Longrightarrow> is_digit c"
proof (induction n arbitrary: c rule: digits.induct)
  case (1 n)
  show ?case
  proof (cases "n < 10")
    case True
    with "1.prems" show ?thesis
      by (subst (asm) digits.simps) (simp add: is_digit_digit_char)
  next
    case False
    with "1.prems" have "c \<in> set (digits (n div 10)) \<or> c = digit_char (n mod 10)"
      by (subst (asm) digits.simps) auto
    with False "1.IH" show ?thesis
      by (auto simp: is_digit_digit_char)
  qed
qed

lemma digits_length_one: "length (digits n) = 1 \<longleftrightarrow> n < 10"
proof (cases "n < 10")
  case True
  then show ?thesis by (subst digits.simps) simp
next
  case False
  have "length (digits (n div 10)) \<noteq> 0"
    using digits_nonempty [of "n div 10"] by simp
  with False show ?thesis by (subst digits.simps) simp
qed

lemma digits_inj: "digits m = digits n \<Longrightarrow> m = n"
proof (induction m arbitrary: n rule: digits.induct)
  case (1 m)
  show ?case
  proof (cases "m < 10")
    case True
    then have m1: "length (digits m) = 1" using digits_length_one [of m] by blast
    with "1.prems" have n: "n < 10" using digits_length_one [of n] by auto
    from True have "digits m = [digit_char m]" by (subst digits.simps) simp
    moreover from n have "digits n = [digit_char n]" by (subst digits.simps) simp
    ultimately show ?thesis using "1.prems" True n by (simp add: digit_char_inj)
  next
    case False
    then have "length (digits m) \<noteq> 1" using digits_length_one [of m] by blast
    with "1.prems" have n: "\<not> n < 10" using digits_length_one [of n] by auto
    from False have dm: "digits m = digits (m div 10) @ [digit_char (m mod 10)]"
      by (subst digits.simps) simp
    from n have dn: "digits n = digits (n div 10) @ [digit_char (n mod 10)]"
      by (subst digits.simps) simp
    from dm dn "1.prems" have e1: "digits (m div 10) = digits (n div 10)"
      and e2: "digit_char (m mod 10) = digit_char (n mod 10)" by simp_all
    from "1.IH" [OF False e1] have q: "m div 10 = n div 10" .
    from e2 have r: "m mod 10 = n mod 10" by (simp add: digit_char_inj)
    have "m = 10 * (m div 10) + m mod 10" by simp
    also have "\<dots> = 10 * (n div 10) + n mod 10" using q r by simp
    also have "\<dots> = n" by simp
    finally show ?thesis .
  qed
qed

lemma minus_not_digit: "\<not> is_digit CHR ''-''"
  by (simp add: is_digit_def decimal_digits_def)

lemma comma_not_digit: "\<not> is_digit CHR '',''"
  by (simp add: is_digit_def decimal_digits_def)

lemma hd_digits_digit: "is_digit (hd (digits n))"
  using digits_all_digit [of "hd (digits n)" n] digits_nonempty [of n] by simp

lemma digits_not_minus: "digits m \<noteq> CHR ''-'' # s"
  using hd_digits_digit [of m] minus_not_digit by (cases "digits m") auto

lemma to_string_nonempty: "to_string i \<noteq> []"
  by (simp add: to_string_def digits_nonempty)

lemma to_string_no_comma: "CHR '','' \<notin> set (to_string i)"
  using digits_all_digit comma_not_digit by (auto simp: to_string_def)

lemma to_string_inj: "to_string i = to_string j \<Longrightarrow> i = j"
proof -
  assume e: "to_string i = to_string j"
  show ?thesis
  proof (cases "i < 0")
    case True
    with e have j: "j < 0"
      using digits_not_minus [of "nat j" "digits (nat (- i))"]
      by (auto simp: to_string_def split: if_splits)
    with True e have "digits (nat (- i)) = digits (nat (- j))"
      by (simp add: to_string_def)
    then have "nat (- i) = nat (- j)" by (rule digits_inj)
    with True j show ?thesis by simp
  next
    case False
    with e have j: "\<not> j < 0"
      using digits_not_minus [of "nat i" "digits (nat (- j))"]
      by (auto simp: to_string_def split: if_splits)
    with False e have "digits (nat i) = digits (nat j)"
      by (simp add: to_string_def)
    then have "nat i = nat j" by (rule digits_inj)
    with False j show ?thesis by simp
  qed
qed

section \<open>Properties of the device-list key\<close>

lemma getKeyFromDevices_loop_nonempty:
  "acc \<noteq> [] \<Longrightarrow>
   getKeyFromDevices_loop acc ds = acc @ concat (map (\<lambda>d. CHR '','' # to_string d) ds)"
  by (induction ds arbitrary: acc) simp_all

lemma getKeyFromDevices_joined: "getKeyFromDevices ds = joined (map to_string ds)"
  by (cases ds)
    (simp_all add: getKeyFromDevices_def getKeyFromDevices_loop_nonempty to_string_nonempty
      comp_def)

lemma takeWhile_field:
  "CHR '','' \<notin> set s \<Longrightarrow>
   takeWhile (\<lambda>c. c \<noteq> CHR '','') (s @ concat (map (\<lambda>t. CHR '','' # t) ts)) = s"
  by (cases ts) (auto simp: takeWhile_append)

lemma dropWhile_field:
  "CHR '','' \<notin> set s \<Longrightarrow>
   dropWhile (\<lambda>c. c \<noteq> CHR '','') (s @ concat (map (\<lambda>t. CHR '','' # t) ts)) =
   concat (map (\<lambda>t. CHR '','' # t) ts)"
  by (cases ts) (auto simp: dropWhile_append)

lemma fields_inj:
  assumes "\<forall>s \<in> set (x # xs). CHR '','' \<notin> set s"
    and "\<forall>s \<in> set (y # ys). CHR '','' \<notin> set s"
    and "x @ concat (map (\<lambda>t. CHR '','' # t) xs) = y @ concat (map (\<lambda>t. CHR '','' # t) ys)"
  shows "x = y \<and> xs = ys"
  using assms
proof (induction xs arbitrary: x y ys)
  case Nil
  from Nil.prems have x: "CHR '','' \<notin> set x" and y: "CHR '','' \<notin> set y" by simp_all
  from Nil.prems(3) have e: "x = y @ concat (map (\<lambda>t. CHR '','' # t) ys)" by simp
  show ?case
  proof (cases ys)
    case Nil
    with e show ?thesis by simp
  next
    case (Cons z zs)
    with e x show ?thesis by simp
  qed
next
  case (Cons a as)
  from Cons.prems have x: "CHR '','' \<notin> set x" and y: "CHR '','' \<notin> set y" by simp_all
  let ?l = "x @ concat (map (\<lambda>t. CHR '','' # t) (a # as))"
  let ?r = "y @ concat (map (\<lambda>t. CHR '','' # t) ys)"
  from Cons.prems(3) have e: "?l = ?r" .
  have "takeWhile (\<lambda>c. c \<noteq> CHR '','') ?l = x" using x by (rule takeWhile_field)
  moreover have "takeWhile (\<lambda>c. c \<noteq> CHR '','') ?r = y" using y by (rule takeWhile_field)
  ultimately have xy: "x = y" using e by simp
  have "dropWhile (\<lambda>c. c \<noteq> CHR '','') ?l = concat (map (\<lambda>t. CHR '','' # t) (a # as))"
    using x by (rule dropWhile_field)
  moreover have "dropWhile (\<lambda>c. c \<noteq> CHR '','') ?r = concat (map (\<lambda>t. CHR '','' # t) ys)"
    using y by (rule dropWhile_field)
  ultimately have rest:
    "concat (map (\<lambda>t. CHR '','' # t) (a # as)) = concat (map (\<lambda>t. CHR '','' # t) ys)"
    using e by simp
  show ?case
  proof (cases ys)
    case Nil
    with rest show ?thesis by simp
  next
    case (Cons b bs)
    with rest have "a @ concat (map (\<lambda>t. CHR '','' # t) as) =
      b @ concat (map (\<lambda>t. CHR '','' # t) bs)" by simp
    moreover from Cons.prems(1) have "\<forall>s \<in> set (a # as). CHR '','' \<notin> set s" by simp
    moreover from Cons.prems(2) Cons have "\<forall>s \<in> set (b # bs). CHR '','' \<notin> set s" by simp
    ultimately have "a = b \<and> as = bs" by (rule Cons.IH [rotated 2])
    with xy Cons show ?thesis by simp
  qed
qed

lemma joined_inj:
  assumes "\<forall>s \<in> set xs. CHR '','' \<notin> set s \<and> s \<noteq> []"
    and "\<forall>s \<in> set ys. CHR '','' \<notin> set s \<and> s \<noteq> []"
    and "joined xs = joined ys"
  shows "xs = ys"
proof (cases xs)
  case Nil
  with assms show ?thesis by (cases ys) auto
next
  case (Cons x xs')
  note X = Cons
  show ?thesis
  proof (cases ys)
    case Nil
    with assms X show ?thesis by auto
  next
    case (Cons y ys')
    from assms(1) X have "\<forall>s \<in> set (x # xs'). CHR '','' \<notin> set s" by simp
    moreover from assms(2) Cons have "\<forall>s \<in> set (y # ys'). CHR '','' \<notin> set s" by simp
    moreover from assms(3) X Cons have
      "x @ concat (map (\<lambda>t. CHR '','' # t) xs') = y @ concat (map (\<lambda>t. CHR '','' # t) ys')"
      by simp
    ultimately have "x = y \<and> xs' = ys'" by (rule fields_inj)
    with X Cons show ?thesis by simp
  qed
qed

lemma getKeyFromDevices_inj:
  assumes "getKeyFromDevices xs = getKeyFromDevices ys"
  shows "xs = ys"
proof -
  have "map to_string xs = map to_string ys"
  proof (rule joined_inj)
    show "\<forall>s \<in> set (map to_string xs). CHR '','' \<notin> set s \<and> s \<noteq> []"
      by (auto simp: to_string_no_comma to_string_nonempty)
    show "\<forall>s \<in> set (map to_string ys). CHR '','' \<notin> set s \<and> s \<noteq> []"
      by (auto simp: to_string_no_comma to_string_nonempty)
    show "joined (map to_string xs) = joined (map to_string ys)"
      using assms by (simp add: getKeyFromDevices_joined)
  qed
  moreover have "inj to_string"
    by (rule injI) (rule to_string_inj)
  ultimately show ?thesis
    by (simp add: inj_map_eq_map)
qed

lemma getKeyFromDevices_empty_iff: "getKeyFromDevices ds = [] \<longleftrightarrow> ds = []"
  by (cases ds) (simp_all add: getKeyFromDevices_joined to_string_nonempty)

text \<open>
  C5. The key is a function of the ordered device list, and an injective one: two device
  lists have the same key only when they are the same list, in order and in content.
  Indices of several digits do not collide, since the comma separates them: the lists
  \<open>[1, 10]\<close>, \<open>[11, 0]\<close>, \<open>[110]\<close> and \<open>[10, 1]\<close> have four different keys.
\<close>

theorem getKeyFromDevices_injective:
  "(getKeyFromDevices xs = getKeyFromDevices ys \<longleftrightarrow> xs = ys)
   \<and> getKeyFromDevices [1, 10] = ''1,10''
   \<and> getKeyFromDevices [11, 0] = ''11,0''
   \<and> getKeyFromDevices [110] = ''110''
   \<and> getKeyFromDevices [10, 1] = ''10,1''"
proof -
  have "getKeyFromDevices xs = getKeyFromDevices ys \<longleftrightarrow> xs = ys"
    using getKeyFromDevices_inj [of xs ys] by auto
  moreover have "getKeyFromDevices [1, 10] = ''1,10''" by code_simp
  moreover have "getKeyFromDevices [11, 0] = ''11,0''" by code_simp
  moreover have "getKeyFromDevices [110] = ''110''" by code_simp
  moreover have "getKeyFromDevices [10, 1] = ''10,1''" by code_simp
  ultimately show ?thesis by simp
qed

section \<open>Properties of the validation\<close>

lemma tensorCheckHelper_loop_Cons:
  "tensorCheckHelper_loop n0 t0 r used (p # ps) =
     (case pair_error n0 t0 r used p of
        Some e \<Rightarrow> Inl e
      | None \<Rightarrow> tensorCheckHelper_loop n0 t0 r (insert (get_device (fst p)) used) ps)"
  by (cases p) (simp add: pair_error_def)

lemma devices_before_0: "devices_before ps 0 = {}"
  by (simp add: devices_before_def)

lemma devices_before_Suc:
  "used \<union> devices_before (p # ps) (Suc j) =
   insert (get_device (fst p)) used \<union> devices_before ps j"
  by (simp add: devices_before_def)

lemma tensorCheckHelper_loop_Inl_iff:
  "tensorCheckHelper_loop n0 t0 r used ps = Inl e \<longleftrightarrow>
   (\<exists>i < length ps.
      (\<forall>j < i. pair_error n0 t0 r (used \<union> devices_before ps j) (ps ! j) = None) \<and>
      pair_error n0 t0 r (used \<union> devices_before ps i) (ps ! i) = Some e)"
proof (induction ps arbitrary: used)
  case Nil
  show ?case by simp
next
  case (Cons p ps)
  let ?P = "\<lambda>u qs k. pair_error n0 t0 r (u \<union> devices_before qs k) (qs ! k)"
  let ?u' = "insert (get_device (fst p)) used"
  have shift: "?P used (p # ps) (Suc k) = ?P ?u' ps k" for k
    by (simp add: devices_before_Suc)
  have zero: "?P used (p # ps) 0 = pair_error n0 t0 r used p"
    by (simp add: devices_before_0)
  show ?case
  proof (cases "pair_error n0 t0 r used p")
    case (Some e')
    have "(\<exists>i < length (p # ps). (\<forall>j < i. ?P used (p # ps) j = None) \<and>
             ?P used (p # ps) i = Some e) \<longleftrightarrow> e' = e"
    proof
      assume "\<exists>i < length (p # ps). (\<forall>j < i. ?P used (p # ps) j = None) \<and>
             ?P used (p # ps) i = Some e"
      then obtain i where i: "\<forall>j < i. ?P used (p # ps) j = None"
        "?P used (p # ps) i = Some e" by blast
      show "e' = e"
      proof (cases i)
        case 0
        with i(2) zero Some show ?thesis by simp
      next
        case (Suc k)
        with i(1) have "?P used (p # ps) 0 = None" by blast
        with zero Some show ?thesis by simp
      qed
    next
      assume "e' = e"
      with zero Some have "?P used (p # ps) 0 = Some e" by simp
      then show "\<exists>i < length (p # ps). (\<forall>j < i. ?P used (p # ps) j = None) \<and>
             ?P used (p # ps) i = Some e"
        by (intro exI [of _ 0]) simp
    qed
    with Some show ?thesis
      by (simp only: tensorCheckHelper_loop_Cons option.case sum.inject)
  next
    case None
    have "(\<exists>i < length (p # ps). (\<forall>j < i. ?P used (p # ps) j = None) \<and>
             ?P used (p # ps) i = Some e) \<longleftrightarrow>
          (\<exists>i < length ps. (\<forall>j < i. ?P ?u' ps j = None) \<and> ?P ?u' ps i = Some e)"
    proof
      assume "\<exists>i < length (p # ps). (\<forall>j < i. ?P used (p # ps) j = None) \<and>
             ?P used (p # ps) i = Some e"
      then obtain i where i: "i < length (p # ps)" "\<forall>j < i. ?P used (p # ps) j = None"
        "?P used (p # ps) i = Some e" by blast
      from i(3) zero None obtain k where k: "i = Suc k" by (cases i) auto
      from i(1) k have "k < length ps" by simp
      moreover have "\<forall>j < k. ?P ?u' ps j = None"
      proof (intro allI impI)
        fix j assume "j < k"
        with k have "Suc j < i" by simp
        with i(2) have "?P used (p # ps) (Suc j) = None" by blast
        then show "?P ?u' ps j = None" by (simp only: shift)
      qed
      moreover from i(3) k have "?P ?u' ps k = Some e" by (simp only: shift)
      ultimately show "\<exists>i < length ps. (\<forall>j < i. ?P ?u' ps j = None) \<and> ?P ?u' ps i = Some e"
        by blast
    next
      assume "\<exists>i < length ps. (\<forall>j < i. ?P ?u' ps j = None) \<and> ?P ?u' ps i = Some e"
      then obtain k where k: "k < length ps" "\<forall>j < k. ?P ?u' ps j = None"
        "?P ?u' ps k = Some e" by blast
      have "\<forall>j < Suc k. ?P used (p # ps) j = None"
      proof (intro allI impI)
        fix j assume j: "j < Suc k"
        show "?P used (p # ps) j = None"
        proof (cases j)
          case 0
          with zero None show ?thesis by simp
        next
          case (Suc m)
          with j have "m < k" by simp
          with k(2) have "?P ?u' ps m = None" by blast
          with Suc show ?thesis by (simp only: shift)
        qed
      qed
      moreover from k(3) have "?P used (p # ps) (Suc k) = Some e" by (simp only: shift)
      moreover from k(1) have "Suc k < length (p # ps)" by simp
      ultimately show "\<exists>i < length (p # ps). (\<forall>j < i. ?P used (p # ps) j = None) \<and>
             ?P used (p # ps) i = Some e" by blast
    qed
    with None Cons.IH [of ?u'] show ?thesis
      by (simp only: tensorCheckHelper_loop_Cons option.case)
  qed
qed

lemma tensorCheckHelper_loop_Inr_iff:
  "tensorCheckHelper_loop n0 t0 r used ps = Inr () \<longleftrightarrow>
   (\<forall>i < length ps. pair_error n0 t0 r (used \<union> devices_before ps i) (ps ! i) = None)"
proof (induction ps arbitrary: used)
  case Nil
  show ?case by simp
next
  case (Cons p ps)
  let ?P = "\<lambda>u qs k. pair_error n0 t0 r (u \<union> devices_before qs k) (qs ! k)"
  let ?u' = "insert (get_device (fst p)) used"
  have shift: "?P used (p # ps) (Suc k) = ?P ?u' ps k" for k
    by (simp add: devices_before_Suc)
  have zero: "?P used (p # ps) 0 = pair_error n0 t0 r used p"
    by (simp add: devices_before_0)
  have all: "(\<forall>i < length (p # ps). ?P used (p # ps) i = None) \<longleftrightarrow>
    pair_error n0 t0 r used p = None \<and> (\<forall>i < length ps. ?P ?u' ps i = None)"
  proof -
    have "(\<forall>i < length (p # ps). ?P used (p # ps) i = None) \<longleftrightarrow>
      ?P used (p # ps) 0 = None \<and> (\<forall>i < length ps. ?P used (p # ps) (Suc i) = None)"
      by (simp only: length_Cons All_less_Suc2)
    then show ?thesis by (simp only: shift zero)
  qed
  show ?case
  proof (cases "pair_error n0 t0 r used p")
    case None
    with Cons.IH [of ?u'] all show ?thesis
      by (simp only: tensorCheckHelper_loop_Cons option.case) simp
  next
    case (Some e')
    with all show ?thesis
      by (simp only: tensorCheckHelper_loop_Cons option.case) simp
  qed
qed

lemma check_at_pair_error:
  "check_at input output r i =
   pair_error (numel (input ! 0)) (scalarType (input ! 0)) r
     (get_device ` set (take i input)) (input ! i, output ! i)"
  by (simp add: check_at_def loop_checks_def pair_error_def not_cuda_dense_at_def
      type_mismatch_at_def input_numel_at_def output_numel_at_def not_contiguous_at_def
      duplicate_device_at_def device_mismatch_at_def)

lemma devices_before_zip:
  "length input = length output \<Longrightarrow>
   devices_before (zip input output) i = get_device ` set (take i input)"
proof -
  assume l: "length input = length output"
  have "fst ` set (take i (zip input output)) = set (map fst (zip (take i input) (take i output)))"
    by (simp add: take_zip)
  also have "\<dots> = set (take i input)"
    using l by (simp only: map_fst_zip length_take)
  finally show ?thesis by (simp add: devices_before_def)
qed

lemma pair_error_zip:
  "length input = length output \<Longrightarrow> i < length input \<Longrightarrow>
   pair_error (numel (input ! 0)) (scalarType (input ! 0)) r
     ({} \<union> devices_before (zip input output) i) (zip input output ! i) =
   check_at input output r i"
  by (simp add: check_at_pair_error devices_before_zip)

lemma tensorCheckHelper_Inl_iff:
  "tensorCheckHelper nd input output r = Inl e \<longleftrightarrow>
   (if length input \<noteq> length output then e = err_length_mismatch
    else if input = [] then e = err_zero_tensors
    else if to_size_t nd < int (length input) then e = err_too_many_tensors
    else \<exists>i < length input.
           (\<forall>j < i. check_at input output r j = None) \<and> check_at input output r i = Some e)"
proof -
  consider (a) "length input \<noteq> length output" | (b) "length input = length output" "input = []"
    | (c) "length input = length output" "input \<noteq> []" "to_size_t nd < int (length input)"
    | (d) "length input = length output" "input \<noteq> []" "\<not> to_size_t nd < int (length input)"
    by blast
  then show ?thesis
  proof cases
    case a
    then show ?thesis by (auto simp: tensorCheckHelper_def)
  next
    case b
    then show ?thesis by (auto simp: tensorCheckHelper_def)
  next
    case c
    then show ?thesis by (auto simp: tensorCheckHelper_def)
  next
    case d
    let ?n0 = "numel (input ! 0)" and ?t0 = "scalarType (input ! 0)"
    let ?ps = "zip input output"
    have len: "length ?ps = length input" using d(1) by simp
    have "tensorCheckHelper nd input output r = tensorCheckHelper_loop ?n0 ?t0 r {} ?ps"
      using d by (auto simp: tensorCheckHelper_def)
    also have "\<dots> = Inl e \<longleftrightarrow>
      (\<exists>i < length ?ps.
        (\<forall>j < i. pair_error ?n0 ?t0 r ({} \<union> devices_before ?ps j) (?ps ! j) = None) \<and>
        pair_error ?n0 ?t0 r ({} \<union> devices_before ?ps i) (?ps ! i) = Some e)"
      by (rule tensorCheckHelper_loop_Inl_iff)
    also have "\<dots> \<longleftrightarrow> (\<exists>i < length input.
           (\<forall>j < i. check_at input output r j = None) \<and> check_at input output r i = Some e)"
      unfolding len
    proof (intro ex_cong1 conj_cong refl)
      fix i assume i: "i < length input"
      show "(\<forall>j < i. pair_error ?n0 ?t0 r ({} \<union> devices_before ?ps j) (?ps ! j) = None)
        \<longleftrightarrow> (\<forall>j < i. check_at input output r j = None)"
        using i d(1) by (auto simp only: pair_error_zip dest: less_trans)
      show "pair_error ?n0 ?t0 r ({} \<union> devices_before ?ps i) (?ps ! i) = Some e
        \<longleftrightarrow> check_at input output r i = Some e"
        using i d(1) by (simp only: pair_error_zip)
    qed
    finally show ?thesis using d by simp
  qed
qed

lemma tensorCheckHelper_Inr_iff:
  "tensorCheckHelper nd input output r = Inr () \<longleftrightarrow>
   length input = length output \<and> input \<noteq> [] \<and> int (length input) \<le> to_size_t nd \<and>
   (\<forall>i < length input. check_at input output r i = None)"
proof (cases "length input = length output \<and> input \<noteq> [] \<and> int (length input) \<le> to_size_t nd")
  case False
  then show ?thesis by (auto simp: tensorCheckHelper_def)
next
  case True
  let ?n0 = "numel (input ! 0)" and ?t0 = "scalarType (input ! 0)"
  let ?ps = "zip input output"
  have len: "length ?ps = length input" using True by simp
  have "tensorCheckHelper nd input output r = tensorCheckHelper_loop ?n0 ?t0 r {} ?ps"
    using True by (auto simp: tensorCheckHelper_def)
  also have "\<dots> = Inr () \<longleftrightarrow>
    (\<forall>i < length ?ps. pair_error ?n0 ?t0 r ({} \<union> devices_before ?ps i) (?ps ! i) = None)"
    by (rule tensorCheckHelper_loop_Inr_iff)
  also have "\<dots> \<longleftrightarrow> (\<forall>i < length input. check_at input output r i = None)"
    unfolding len using True by (auto simp only: pair_error_zip)
  finally show ?thesis using True by simp
qed

lemma errors_distinct:
  "distinct [err_length_mismatch, err_zero_tensors, err_too_many_tensors, err_not_cuda_dense,
     err_type_mismatch, err_input_numel, err_output_numel, err_not_contiguous,
     err_duplicate_device, err_device_mismatch]"
  by (simp add: err_length_mismatch_def err_zero_tensors_def err_too_many_tensors_def
      err_not_cuda_dense_def err_type_mismatch_def err_input_numel_def err_output_numel_def
      err_not_contiguous_def err_duplicate_device_def err_device_mismatch_def)

lemmas check_defs = check_at_def loop_checks_def not_cuda_dense_at_def
      type_mismatch_at_def input_numel_at_def output_numel_at_def not_contiguous_at_def
      duplicate_device_at_def device_mismatch_at_def

lemma not_distinct_duplicate_at:
  assumes "\<not> distinct (map get_device input)"
  shows "\<exists>j < length input. duplicate_device_at input j"
proof -
  from assms obtain i j where ij: "i < j" "j < length input"
    "get_device (input ! i) = get_device (input ! j)"
    by (auto simp: distinct_conv_nth nat_neq_iff)
  then have "input ! i \<in> set (take j input)"
    by (auto simp: in_set_conv_nth intro!: exI [of _ i])
  with ij(3) [symmetric] have "get_device (input ! j) \<in> get_device ` set (take j input)"
    by (rule image_eqI)
  with ij(2) show ?thesis by (auto simp: duplicate_device_at_def)
qed

lemma duplicate_at_check_at: "duplicate_device_at input j \<Longrightarrow> check_at input output r j \<noteq> None"
  by (simp add: check_at_pair_error pair_error_def duplicate_device_at_def)

text \<open>
  The product of line 324 is a product of 64-bit integers. Where the product of the
  numbers fits 64 bits, the check compares the output count with that product.
\<close>

lemma word_mul_of_int_sint: "(a :: 64 word) * word_of_int r = word_of_int (sint a * r)"
  by simp

lemma sint_of_int_in_range:
  "- (2 ^ 63) \<le> k \<Longrightarrow> k < 2 ^ 63 \<Longrightarrow> sint (word_of_int k :: 64 word) = k"
  by (simp add: sint_sbintrunc' signed_take_bit_int_eq_self)

lemma eq_of_int_iff_sint:
  assumes "- (2 ^ 63) \<le> k" "k < 2 ^ 63"
  shows "(b :: 64 word) = word_of_int k \<longleftrightarrow> sint b = k"
proof
  assume "b = word_of_int k"
  then show "sint b = k" using assms by (simp only: sint_of_int_in_range)
next
  assume "sint b = k"
  then have "word_of_int (sint b) = (word_of_int k :: 64 word)" by simp
  then show "b = word_of_int k" by simp
qed

lemma output_numel_at_in_range:
  assumes "- (2 ^ 63) \<le> sint (numel (input ! 0)) * r" "sint (numel (input ! 0)) * r < 2 ^ 63"
  shows "output_numel_at input output r i \<longleftrightarrow>
    sint (numel (output ! i)) \<noteq> sint (numel (input ! 0)) * r"
  unfolding output_numel_at_def word_mul_of_int_sint
  using eq_of_int_iff_sint [OF assms, of "numel (output ! i)"] by simp

text \<open>An overflowing product wraps: \<open>2 ^ 62\<close> times 4 is 0 in 64 bits.\<close>

lemma tensorCheckHelper_wraps_example:
  "tensorCheckHelper 8 [(cuda_tensor 0 4096)\<lparr>numel := 2 ^ 62\<rparr>]
     [(cuda_tensor 0 8192)\<lparr>numel := 0\<rparr>] 4 = Inr ()"
  by (simp add: tensorCheckHelper_def cuda_tensor_def to_size_t_def)

text \<open>
  C3, as the code has it. \<open>tensorCheckHelper\<close> checks once, in this order, that the two
  sequences have the same length, that the input is not empty and that it has no more
  tensors than there are devices. Then it goes through the pairs in the order of their
  index and, at each pair, through seven checks in this order: CUDA and dense, same
  element type, same input element count, output element count equal to the input count
  times the ratio, contiguous, input device not used by an earlier input, output on the
  device of its input. The error raised is the one of the first check violated at the
  first pair that violates any check; the call succeeds when no pair violates a check.
  The ten errors are pairwise different. The input count times the ratio is the product
  in 64 bits, which wraps; where the product of the two numbers fits a signed integer of
  64 bits, the check of the output count compares the output count with that product.
\<close>

theorem tensorCheckHelper_check_order:
  "(tensorCheckHelper nd input output r = Inl e \<longleftrightarrow>
     (if length input \<noteq> length output then e = err_length_mismatch
      else if input = [] then e = err_zero_tensors
      else if to_size_t nd < int (length input) then e = err_too_many_tensors
      else \<exists>i < length input.
             (\<forall>j < i. check_at input output r j = None) \<and> check_at input output r i = Some e))
   \<and> (tensorCheckHelper nd input output r = Inr () \<longleftrightarrow>
        length input = length output \<and> input \<noteq> [] \<and> int (length input) \<le> to_size_t nd \<and>
        (\<forall>i < length input. check_at input output r i = None))
   \<and> distinct [err_length_mismatch, err_zero_tensors, err_too_many_tensors,
        err_not_cuda_dense, err_type_mismatch, err_input_numel, err_output_numel,
        err_not_contiguous, err_duplicate_device, err_device_mismatch]
   \<and> output_numel_at input output r k =
        (numel (output ! k) \<noteq> numel (input ! 0) * word_of_int r)
   \<and> (- (2 ^ 63) \<le> sint (numel (input ! 0)) * r \<and> sint (numel (input ! 0)) * r < 2 ^ 63 \<longrightarrow>
        output_numel_at input output r k =
          (sint (numel (output ! k)) \<noteq> sint (numel (input ! 0)) * r))"
proof -
  have "output_numel_at input output r k =
      (sint (numel (output ! k)) \<noteq> sint (numel (input ! 0)) * r)"
    if "- (2 ^ 63) \<le> sint (numel (input ! 0)) * r \<and> sint (numel (input ! 0)) * r < 2 ^ 63"
    using that output_numel_at_in_range [of input r "output" k] by blast
  then show ?thesis
    using tensorCheckHelper_Inl_iff [of nd input "output" r e]
      tensorCheckHelper_Inr_iff [of nd input "output" r] errors_distinct
      output_numel_at_def [of input "output" r k]
    by (intro conjI impI)
qed

theorem tensorCheckHelper_check_order_witness:
  "tensorCheckHelper 8
     [(cuda_tensor 0 4096)\<lparr>is_contiguous := False\<rparr>, cpu_tensor 1 8192]
     [(cuda_tensor 0 4096)\<lparr>is_contiguous := False\<rparr>, cpu_tensor 1 8192] 1
   = Inl err_not_contiguous
   \<and> \<not> output_numel_at
       [(cuda_tensor 0 4096)\<lparr>is_contiguous := False\<rparr>, cpu_tensor 1 8192]
       [(cuda_tensor 0 4096)\<lparr>is_contiguous := False\<rparr>, cpu_tensor 1 8192] 1 1"
proof -
  let ?ts = "[(cuda_tensor 0 4096)\<lparr>is_contiguous := False\<rparr>, cpu_tensor 1 8192]"
  note t = tensorCheckHelper_check_order [of 8 ?ts ?ts 1 err_not_contiguous 1]
  have "check_at ?ts ?ts 1 0 = Some err_not_contiguous"
    by (simp add: check_defs cuda_tensor_def)
  then have "\<exists>i < length ?ts. (\<forall>j < i. check_at ?ts ?ts 1 j = None) \<and>
      check_at ?ts ?ts 1 i = Some err_not_contiguous"
    by (intro exI [of _ 0]) simp
  moreover have "\<not> to_size_t 8 < int (length ?ts)" by (simp add: to_size_t_def)
  ultimately have a: "tensorCheckHelper 8 ?ts ?ts 1 = Inl err_not_contiguous"
    using t by simp
  have n: "sint (numel (?ts ! 0)) = 4" "sint (numel (?ts ! 1)) = 4"
    by (simp_all add: cuda_tensor_def cpu_tensor_def)
  have "- (2 ^ 63) \<le> sint (numel (?ts ! 0)) * 1 \<and> sint (numel (?ts ! 0)) * 1 < 2 ^ 63"
    unfolding n by simp
  with t have "output_numel_at ?ts ?ts 1 1 =
      (sint (numel (?ts ! 1)) \<noteq> sint (numel (?ts ! 0)) * 1)" by blast
  then have "\<not> output_numel_at ?ts ?ts 1 1" unfolding n by simp
  with a show ?thesis by simp
qed

text \<open>
  C3, as the claim words it, fails: with a first pair that is not contiguous and a
  second pair that is not in device memory, a single list of ten checks would report the
  residency (its fourth check), and the code reports the contiguity of the first pair,
  which it reaches first.
\<close>

theorem spec_check_order_counterexample:
  "tensorCheckHelper 8
     [(cuda_tensor 0 4096)\<lparr>is_contiguous := False\<rparr>, cpu_tensor 1 8192]
     [(cuda_tensor 0 4096)\<lparr>is_contiguous := False\<rparr>, cpu_tensor 1 8192] 1
   = Inl err_not_contiguous
   \<and> spec_check_order 8
     [(cuda_tensor 0 4096)\<lparr>is_contiguous := False\<rparr>, cpu_tensor 1 8192]
     [(cuda_tensor 0 4096)\<lparr>is_contiguous := False\<rparr>, cpu_tensor 1 8192] 1
   = Inl err_not_cuda_dense
   \<and> err_not_contiguous \<noteq> err_not_cuda_dense"
  by (simp add: tensorCheckHelper_def spec_check_order_def to_size_t_def cuda_tensor_def
      cpu_tensor_def loop_checks_def not_cuda_dense_at_def err_not_contiguous_def
      err_not_cuda_dense_def)

text \<open>
  C4, as the claim words it, fails: two inputs on device 0 that are not in device
  memory are rejected for that reason, not as a duplicate device.
\<close>

theorem duplicate_device_counterexample:
  "\<not> distinct (map get_device [cpu_tensor 0 4096, cpu_tensor 0 8192])
   \<and> tensorCheckHelper 8 [cpu_tensor 0 4096, cpu_tensor 0 8192]
       [cpu_tensor 0 4096, cpu_tensor 0 8192] 1 = Inl err_not_cuda_dense
   \<and> err_not_cuda_dense \<noteq> err_duplicate_device"
  by (simp add: tensorCheckHelper_def to_size_t_def cuda_tensor_def cpu_tensor_def
      err_duplicate_device_def err_not_cuda_dense_def)

text \<open>
  C4, as the code has it. A call in which two inputs are on the same device is always
  rejected with some error. The error is the duplicate-device error when the sequences
  have the same length, there are enough devices, every pair before the second of the
  two inputs passes all checks, and the pair of that input passes the five checks that
  the loop makes before it looks at the device.
\<close>

theorem duplicate_device_rejected:
  assumes "\<not> distinct (map get_device input)"
  shows "(\<exists>e. tensorCheckHelper nd input output r = Inl e)
    \<and> (\<forall>j. length input = length output \<and> int (length input) \<le> to_size_t nd
          \<and> j < length input \<and> duplicate_device_at input j
          \<and> (\<forall>i < j. check_at input output r i = None)
          \<and> \<not> not_cuda_dense_at input output j \<and> \<not> type_mismatch_at input output j
          \<and> \<not> input_numel_at input j \<and> \<not> output_numel_at input output r j
          \<and> \<not> not_contiguous_at input output j
        \<longrightarrow> tensorCheckHelper nd input output r = Inl err_duplicate_device)"
proof
  from assms obtain j where j: "j < length input" "duplicate_device_at input j"
    using not_distinct_duplicate_at by blast
  then have "check_at input output r j \<noteq> None" by (simp add: duplicate_at_check_at)
  with j(1) have "tensorCheckHelper nd input output r \<noteq> Inr ()"
    by (auto simp: tensorCheckHelper_Inr_iff)
  then show "\<exists>e. tensorCheckHelper nd input output r = Inl e"
    by (cases "tensorCheckHelper nd input output r") auto
next
  show "\<forall>j. length input = length output \<and> int (length input) \<le> to_size_t nd
          \<and> j < length input \<and> duplicate_device_at input j
          \<and> (\<forall>i < j. check_at input output r i = None)
          \<and> \<not> not_cuda_dense_at input output j \<and> \<not> type_mismatch_at input output j
          \<and> \<not> input_numel_at input j \<and> \<not> output_numel_at input output r j
          \<and> \<not> not_contiguous_at input output j
        \<longrightarrow> tensorCheckHelper nd input output r = Inl err_duplicate_device"
  proof (intro allI impI)
    fix j
    assume a: "length input = length output \<and> int (length input) \<le> to_size_t nd
          \<and> j < length input \<and> duplicate_device_at input j
          \<and> (\<forall>i < j. check_at input output r i = None)
          \<and> \<not> not_cuda_dense_at input output j \<and> \<not> type_mismatch_at input output j
          \<and> \<not> input_numel_at input j \<and> \<not> output_numel_at input output r j
          \<and> \<not> not_contiguous_at input output j"
    then have "check_at input output r j = Some err_duplicate_device"
      by (simp add: check_at_def loop_checks_def)
    with a have "\<exists>i < length input. (\<forall>k < i. check_at input output r k = None) \<and>
        check_at input output r i = Some err_duplicate_device" by blast
    moreover from a have "input \<noteq> []" by auto
    ultimately show "tensorCheckHelper nd input output r = Inl err_duplicate_device"
      using a by (simp add: tensorCheckHelper_Inl_iff)
  qed
qed

theorem duplicate_device_rejected_witness:
  "\<not> distinct (map get_device [cuda_tensor 0 4096, cuda_tensor 0 8192])
   \<and> tensorCheckHelper 8 [cuda_tensor 0 4096, cuda_tensor 0 8192]
       [cuda_tensor 0 4096, cuda_tensor 0 8192] 1 = Inl err_duplicate_device"
proof -
  let ?ts = "[cuda_tensor 0 4096, cuda_tensor 0 8192]"
  have d: "\<not> distinct (map get_device ?ts)" by (simp add: cuda_tensor_def)
  have "length ?ts = length ?ts \<and> int (length ?ts) \<le> to_size_t 8
          \<and> 1 < length ?ts \<and> duplicate_device_at ?ts 1
          \<and> (\<forall>i < 1. check_at ?ts ?ts 1 i = None)
          \<and> \<not> not_cuda_dense_at ?ts ?ts 1 \<and> \<not> type_mismatch_at ?ts ?ts 1
          \<and> \<not> input_numel_at ?ts 1 \<and> \<not> output_numel_at ?ts ?ts 1 1
          \<and> \<not> not_contiguous_at ?ts ?ts 1"
    by (simp add: check_defs cuda_tensor_def to_size_t_def)
  with duplicate_device_rejected [OF d, of 8 ?ts 1] d show ?thesis by blast
qed

section \<open>Properties of the work handle\<close>

lemma bindM_returnM: "bindM (returnM x) f = f x"
  by (rule ext) (simp add: bindM_def returnM_def)

lemma bindM_throwM: "bindM (throwM e) f = throwM e"
  by (rule ext) (simp add: bindM_def throwM_def)

lemma bindM_Inr: "m s = (Inr x, s') \<Longrightarrow> bindM m f s = f x s'"
  by (simp add: bindM_def)

lemma bindM_Inl: "m s = (Inl e, s') \<Longrightarrow> bindM m f s = (Inl e, s')"
  by (simp add: bindM_def)

lemma cuda_checked_eq:
  "cuda_checked env c w =
     (if cuda_result env (trace w) c = cudaSuccess then Inr ()
      else Inl (CudaCheckFailed (cuda_result env (trace w) c)),
      w\<lparr>trace := trace w @ [c]\<rparr>)"
  by (simp add: cuda_checked_def cuda_call_def bindM_def C10D_CUDA_CHECK_def returnM_def
      throwM_def)

lemma nccl_checked_eq:
  "nccl_checked env c w =
     (if nccl_result env (trace w) c = ncclSuccess then Inr ()
      else Inl (NcclCheckFailed (nccl_result env (trace w) c)),
      w\<lparr>trace := trace w @ [c]\<rparr>)"
  by (simp add: nccl_checked_def nccl_call_def bindM_def C10D_NCCL_CHECK_def returnM_def
      throwM_def)

lemma vec_at_in: "i < length v \<Longrightarrow> vec_at v i s = (Inr (v ! i), s)"
  by (simp add: vec_at_def returnM_def)

text \<open>One round of the loop of \<open>finishedGPUExecution\<close>, when the device can be selected.\<close>

lemma finishedGPUExecution_loop_step:
  assumes "cuda_result env (trace w) (cudaSetDevice (ds ! i)) = cudaSuccess"
    and "i < length es"
    and "cuda_result env (trace w @ [cudaSetDevice (ds ! i)]) (cudaEventQuery (es ! i)) = r"
  shows "finishedGPUExecution_loop env ds es (i # rest) w =
     (let w' = w\<lparr>trace := trace w @ [cudaSetDevice (ds ! i), cudaEventQuery (es ! i)]\<rparr> in
      if r = cudaSuccess then finishedGPUExecution_loop env ds es rest w'
      else if r = cudaErrorNotReady then (Inr False, w')
      else (Inl (CudaCheckFailed r), w'))"
  using assms
  by (simp add: setDevice_def cuda_checked_eq bindM_def vec_at_in cuda_call_def
      C10D_CUDA_CHECK_def returnM_def throwM_def Let_def)

lemma finishedGPUExecution_loop_stable:
  assumes stable: "\<forall>h c. cuda_result env (trace w @ h) c = q c"
    and dev: "\<forall>d \<in> set ds. q (cudaSetDevice d) = cudaSuccess"
  shows "\<forall>i \<in> set is. i < length ds \<and> i < length es \<Longrightarrow>
    fst (finishedGPUExecution_loop env ds es is (w\<lparr>trace := trace w @ h\<rparr>)) =
    first_not_ready (\<lambda>e. q (cudaEventQuery e)) (map (\<lambda>i. es ! i) is)"
proof (induction "is" arbitrary: h)
  case Nil
  show ?case by (simp add: returnM_def first_not_ready_def)
next
  case (Cons i rest)
  let ?w = "w\<lparr>trace := trace w @ h\<rparr>"
  from Cons.prems have i: "i < length ds" "i < length es" by simp_all
  have 1: "cuda_result env (trace ?w) (cudaSetDevice (ds ! i)) = cudaSuccess"
    using stable dev i(1) by simp
  have 2: "cuda_result env (trace ?w @ [cudaSetDevice (ds ! i)]) (cudaEventQuery (es ! i))
    = q (cudaEventQuery (es ! i))"
    using stable by simp
  have rest: "fst (finishedGPUExecution_loop env ds es rest
       (w\<lparr>trace := trace w @ (h @ [cudaSetDevice (ds ! i), cudaEventQuery (es ! i)])\<rparr>)) =
    first_not_ready (\<lambda>e. q (cudaEventQuery e)) (map (\<lambda>i. es ! i) rest)"
    using Cons.prems by (intro Cons.IH) simp
  have "finishedGPUExecution_loop env ds es (i # rest) ?w =
     (let w' = ?w\<lparr>trace := trace ?w @ [cudaSetDevice (ds ! i), cudaEventQuery (es ! i)]\<rparr> in
      if q (cudaEventQuery (es ! i)) = cudaSuccess
      then finishedGPUExecution_loop env ds es rest w'
      else if q (cudaEventQuery (es ! i)) = cudaErrorNotReady then (Inr False, w')
      else (Inl (CudaCheckFailed (q (cudaEventQuery (es ! i)))), w'))"
    by (rule finishedGPUExecution_loop_step [OF 1 i(2) 2])
  then show ?case
    using rest by (simp add: Let_def first_not_ready_def del: finishedGPUExecution_loop.simps)
qed

lemma finishedGPUExecution_stable:
  assumes "length (m_cudaEvents work) = length (m_devices work)"
    and "\<forall>h c. cuda_result env (trace w @ h) c = q c"
    and "\<forall>d \<in> set (m_devices work). q (cudaSetDevice d) = cudaSuccess"
  shows "fst (finishedGPUExecution env work w) =
    first_not_ready (\<lambda>e. q (cudaEventQuery e)) (m_cudaEvents work)"
proof -
  have "fst (finishedGPUExecution_loop env (m_devices work) (m_cudaEvents work)
      [0 ..< length (m_devices work)] (w\<lparr>trace := trace w @ []\<rparr>)) =
    first_not_ready (\<lambda>e. q (cudaEventQuery e))
      (map (\<lambda>i. m_cudaEvents work ! i) [0 ..< length (m_devices work)])"
    using assms by (intro finishedGPUExecution_loop_stable) auto
  then show ?thesis
    by (simp add: finishedGPUExecution_def assms(1) [symmetric] map_nth)
qed


lemma first_not_ready_True_iff:
  "first_not_ready st es = Inr True \<longleftrightarrow> list_all (\<lambda>e. st e = cudaSuccess) es"
  by (induction es) (auto simp: first_not_ready_def)

text \<open>
  C1, as the claim words it, fails. With an event that is still pending, the poll of the
  specification answers false and \<open>isCompleted\<close> answers true; with an event whose query
  fails, the poll of the specification raises and \<open>isCompleted\<close> answers true.
\<close>

theorem isCompleted_poll_counterexample:
  "spec_poll (\<lambda>e. cuda_result env_pending [] (cudaEventQuery e)) [1] = Inr False
   \<and> fst (isCompleted env_pending \<lparr>m_devices = [0], m_cudaEvents = [1]\<rparr> initial_world)
       = Inr True
   \<and> spec_poll (\<lambda>e. cuda_result env_failing [] (cudaEventQuery e)) [1]
       = Inl (CudaCheckFailed (cudaErrorOther 77))
   \<and> fst (isCompleted env_failing \<lparr>m_devices = [0], m_cudaEvents = [1]\<rparr> initial_world)
       = Inr True"
  by (simp add: spec_poll_def env_pending_def env_failing_def env_ok_def isCompleted_def
      returnM_def)

text \<open>
  C1, as the code has it. \<open>isCompleted\<close> returns true whatever the events report, and
  asks the device nothing. The poll is \<open>finishedGPUExecution\<close>: it asks the events in
  their order and the first event that is not ready decides; it returns false when that
  event is pending, raises the error of the query when the query failed, and returns
  true when every event is ready. This is stated for a work whose vectors have one
  length, as the constructor makes them, while the device answers each call as \<open>q\<close> says
  and lets each device of the work be selected.
\<close>

theorem isCompleted_always_true:
  "isCompleted env work w = (Inr True, w)
   \<and> (length (m_cudaEvents work) = length (m_devices work)
        \<and> (\<forall>h c. cuda_result env (trace w @ h) c = q c)
        \<and> (\<forall>d \<in> set (m_devices work). q (cudaSetDevice d) = cudaSuccess)
      \<longrightarrow> fst (finishedGPUExecution env work w) =
            first_not_ready (\<lambda>e. q (cudaEventQuery e)) (m_cudaEvents work))
   \<and> (first_not_ready st es = Inr True \<longleftrightarrow> list_all (\<lambda>e. st e = cudaSuccess) es)"
  using finishedGPUExecution_stable [of work env w q] first_not_ready_True_iff [of st es]
  by (simp add: isCompleted_def returnM_def)

theorem isCompleted_always_true_witness:
  "isCompleted env_pending \<lparr>m_devices = [0, 1], m_cudaEvents = [1, 3]\<rparr> initial_world
     = (Inr True, initial_world)
   \<and> fst (finishedGPUExecution env_pending \<lparr>m_devices = [0, 1], m_cudaEvents = [1, 3]\<rparr>
       initial_world) = Inr False"
  using isCompleted_always_true [of env_pending "\<lparr>m_devices = [0, 1], m_cudaEvents = [1, 3]\<rparr>"
      initial_world "\<lambda>c. case c of cudaEventQuery _ \<Rightarrow> cudaErrorNotReady | _ \<Rightarrow> cudaSuccess"]
  by (simp add: env_pending_def env_ok_def first_not_ready_def)

lemma forM_all_ok:
  assumes "\<And>x s. x \<in> set xs \<Longrightarrow> P s \<Longrightarrow> \<exists>s'. f x s = (Inr (), s') \<and> P s'"
    and "P s"
  shows "\<exists>s'. forM xs f s = (Inr (), s') \<and> P s'"
  using assms
proof (induction xs arbitrary: s)
  case Nil
  then show ?case by (simp add: returnM_def)
next
  case (Cons x xs)
  from Cons.prems obtain s1 where s1: "f x s = (Inr (), s1)" "P s1" by fastforce
  have "\<exists>s'. forM xs f s1 = (Inr (), s') \<and> P s'"
    using Cons.prems(1) s1(2) by (intro Cons.IH) auto
  with s1(1) show ?case by (simp add: bindM_def)
qed

lemma synchronize_ok:
  assumes ok: "\<forall>h c. cuda_result env (trace w @ h) c = cudaSuccess"
    and len: "length (m_cudaEvents work) = length (m_devices work)"
  shows "fst (synchronize env work w) = Inr ()"
proof -
  define P where "P = (\<lambda>s. \<exists>h. s = w\<lparr>trace := trace w @ h\<rparr>)"
  define body where "body = (\<lambda>i.
       bindM (setDevice env (m_devices work ! i)) (\<lambda>_.
       bindM (THCState_getCurrentStreamOnDevice env (m_devices work ! i)) (\<lambda>thcStream.
       bindM (vec_at (m_cudaEvents work) i) (\<lambda>cudaEvent.
       cuda_checked env (cudaStreamWaitEvent thcStream cudaEvent)))))"
  have step: "\<exists>s'. body i s = (Inr (), s') \<and> P s'"
    if "i \<in> set [0 ..< length (m_devices work)]" "P s" for i s
  proof -
    from that(2) obtain h where h: "s = w\<lparr>trace := trace w @ h\<rparr>" by (auto simp: P_def)
    from that(1) len have i: "i < length (m_cudaEvents work)" by simp
    let ?c1 = "cudaSetDevice (m_devices work ! i)"
    let ?c2 = "cudaStreamWaitEvent (current_stream env (trace w @ h @ [?c1])
      (m_devices work ! i)) (m_cudaEvents work ! i)"
    have "body i s = (Inr (), w\<lparr>trace := trace w @ (h @ [?c1, ?c2])\<rparr>)"
      using ok i
      by (simp add: body_def h bindM_def setDevice_def cuda_checked_eq
          THCState_getCurrentStreamOnDevice_def vec_at_in)
    then show ?thesis unfolding P_def by blast
  qed
  have "P w" unfolding P_def by (intro exI [of _ "[]"]) simp
  with step have "\<exists>s'. forM [0 ..< length (m_devices work)] body w = (Inr (), s') \<and> P s'"
    by (rule forM_all_ok)
  then show ?thesis by (auto simp: synchronize_def body_def)
qed

text \<open>
  C8. \<open>wait\<close> is \<open>synchronize\<close> followed by the result true: it leaves the state that
  \<open>synchronize\<close> leaves, raises what \<open>synchronize\<close> raises and otherwise returns true,
  never false; it does return true when the calls into the device succeed.
  \<open>isSuccess\<close> is true for every work, and \<open>exception\<close> raises the error that says that
  it is not supported.
\<close>

theorem wait_returns_true:
  "wait env work w =
     (case synchronize env work w of
        (Inl e, w') \<Rightarrow> (Inl e, w')
      | (Inr u, w') \<Rightarrow> (Inr True, w'))
   \<and> snd (wait env work w) = snd (synchronize env work w)
   \<and> fst (wait env work w) \<noteq> Inr False
   \<and> ((\<forall>h c. cuda_result env (trace w @ h) c = cudaSuccess)
        \<and> length (m_cudaEvents work) = length (m_devices work)
      \<longrightarrow> fst (wait env work w) = Inr True)
   \<and> isSuccess work = True
   \<and> exception work = Inl err_exception_not_supported"
proof -
  have 1: "wait env work w =
     (case synchronize env work w of
        (Inl e, w') \<Rightarrow> (Inl e, w')
      | (Inr u, w') \<Rightarrow> (Inr True, w'))"
    by (simp add: wait_def bindM_def returnM_def split: prod.splits sum.splits)
  have 2: "snd (wait env work w) = snd (synchronize env work w)"
    by (simp add: 1 split: prod.splits sum.splits)
  have 3: "fst (wait env work w) \<noteq> Inr False"
    by (simp add: 1 split: prod.splits sum.splits)
  have 4: "(\<forall>h c. cuda_result env (trace w @ h) c = cudaSuccess)
        \<and> length (m_cudaEvents work) = length (m_devices work)
      \<longrightarrow> fst (wait env work w) = Inr True"
  proof
    assume a: "(\<forall>h c. cuda_result env (trace w @ h) c = cudaSuccess)
        \<and> length (m_cudaEvents work) = length (m_devices work)"
    then have "fst (synchronize env work w) = Inr ()" by (simp add: synchronize_ok)
    then show "fst (wait env work w) = Inr True"
      by (cases "synchronize env work w") (auto simp: wait_def bindM_def returnM_def)
  qed
  show ?thesis
    using 1 2 3 4 by (simp add: isSuccess_def exception_def)
qed

theorem wait_returns_true_witness:
  "fst (wait env_ok \<lparr>m_devices = [0, 1], m_cudaEvents = [1, 3]\<rparr> initial_world) = Inr True
   \<and> trace (snd (wait env_ok \<lparr>m_devices = [0, 1], m_cudaEvents = [1, 3]\<rparr> initial_world)) =
       [cudaSetDevice 0, cudaStreamWaitEvent 0 1, cudaSetDevice 1, cudaStreamWaitEvent 0 3]"
proof -
  let ?work = "\<lparr>m_devices = [0, 1], m_cudaEvents = [1, 3]\<rparr>"
  have "(\<forall>h c. cuda_result env_ok (trace initial_world @ h) c = cudaSuccess)
      \<and> length (m_cudaEvents ?work) = length (m_devices ?work)"
    by (simp add: env_ok_def)
  with wait_returns_true [of env_ok ?work initial_world]
  have "fst (wait env_ok ?work initial_world) = Inr True"
    by blast
  moreover have "trace (snd (wait env_ok \<lparr>m_devices = [0, 1], m_cudaEvents = [1, 3]\<rparr>
      initial_world)) =
       [cudaSetDevice 0, cudaStreamWaitEvent 0 1, cudaSetDevice 1, cudaStreamWaitEvent 0 3]"
    by (simp add: wait_def synchronize_def bindM_def returnM_def setDevice_def cuda_checked_eq
        THCState_getCurrentStreamOnDevice_def vec_at_def env_ok_def initial_world_def
        upt_rec [of 0] upt_rec [of 1] upt_rec [of 2])
  ultimately show ?thesis by simp
qed

section \<open>Properties of the group identifiers and of the exchange\<close>

text \<open>The selected calls of a trace that grows.\<close>

lemma emitted_append: "emitted proj (t @ u) = emitted proj t @ emitted proj u"
  by (simp add: emitted_def map_filter_def)

lemma emitted_Nil: "emitted proj [] = []"
  by (simp add: emitted_def map_filter_def)

lemma emitted_single: "emitted proj [c] = (case proj c of None \<Rightarrow> [] | Some x \<Rightarrow> [x])"
  by (simp add: emitted_def map_filter_def split: option.splits)

lemma emitted_snoc_None: "proj c = None \<Longrightarrow> emitted proj (t @ [c]) = emitted proj t"
  by (simp add: emitted_append emitted_single)

lemma emitted_snoc_Some: "proj c = Some x \<Longrightarrow> emitted proj (t @ [c]) = emitted proj t @ [x]"
  by (simp add: emitted_append emitted_single)

lemma is_digit_cases:
  "is_digit c \<longleftrightarrow> c = CHR ''0'' \<or> c = CHR ''1'' \<or> c = CHR ''2'' \<or> c = CHR ''3'' \<or> c = CHR ''4''
     \<or> c = CHR ''5'' \<or> c = CHR ''6'' \<or> c = CHR ''7'' \<or> c = CHR ''8'' \<or> c = CHR ''9''"
  by (simp add: is_digit_def decimal_digits_def)

lemma is_digit_not_space: "is_digit c \<Longrightarrow> \<not> is_space c"
  by (auto simp: is_digit_cases is_space_def)

lemma is_digit_not_sign: "is_digit c \<Longrightarrow> c \<noteq> CHR ''-'' \<and> c \<noteq> CHR ''+''"
  by (auto simp: is_digit_cases)

lemma less_ten_cases: "(n::nat) < 10 \<Longrightarrow> n \<in> {0, 1, 2, 3, 4, 5, 6, 7, 8, 9}"
  by auto

lemma digit_value_digit_char: "n < 10 \<Longrightarrow> digit_value (digit_char n) = int n"
  using less_ten_cases [of n]
  by (auto simp: digit_value_def digit_char_def decimal_digits_def)

lemma decimal_value_snoc:
  "decimal_value (ds @ [c]) = 10 * decimal_value ds + digit_value c"
  by (simp add: decimal_value_def)

lemma decimal_value_digits: "decimal_value (digits n) = int n"
proof (induction n rule: digits.induct)
  case (1 n)
  show ?case
  proof (cases "n < 10")
    case True
    then show ?thesis
      by (subst digits.simps) (simp add: decimal_value_def digit_value_digit_char)
  next
    case False
    have "decimal_value (digits n) =
      10 * decimal_value (digits (n div 10)) + digit_value (digit_char (n mod 10))"
      using False by (subst digits.simps) (simp add: decimal_value_snoc)
    also have "\<dots> = 10 * int (n div 10) + int (n mod 10)"
      using False "1.IH" by (simp add: digit_value_digit_char)
    also have "\<dots> = int n" by (simp add: zmod_int zdiv_int)
    finally show ?thesis .
  qed
qed

lemma takeWhile_digits: "takeWhile is_digit (digits n) = digits n"
  using digits_all_digit by (simp add: takeWhile_eq_all_conv)

lemma stoull_digits:
  assumes "int n < 2 ^ 64"
  shows "stoull (digits n) = Inr (int n)"
proof -
  obtain c t where ct: "digits n = c # t"
    using digits_nonempty [of n] by (cases "digits n") auto
  then have c: "is_digit c" using digits_all_digit [of c n] by simp
  then have 1: "dropWhile is_space (digits n) = digits n"
    using ct by (simp add: is_digit_not_space)
  have 2: "(case digits n of [] \<Rightarrow> False | c # _ \<Rightarrow> c = CHR ''-'') = False"
    using ct c is_digit_not_sign by auto
  have 3: "(case digits n of [] \<Rightarrow> digits n
            | c # t \<Rightarrow> if c = CHR ''-'' \<or> c = CHR ''+'' then t else digits n) = digits n"
    using ct c is_digit_not_sign by auto
  show ?thesis
    using assms
    by (simp add: stoull_def 1 2 3 takeWhile_digits decimal_value_digits digits_nonempty)
qed

lemma stoull_to_string:
  "0 \<le> g \<Longrightarrow> g < 2 ^ 64 \<Longrightarrow> stoull (to_string g) = Inr g"
  using stoull_digits [of "nat g"] by (simp add: to_string_def)


lemma ctor_counter:
  "m_processGroupCounter (snd (ProcessGroupNCCL_ctor st r sz nd w)) = m_processGroupCounter w + 1"
  by (simp add: ProcessGroupNCCL_ctor_def Let_def)

lemma ctor_id:
  "m_processGroupID (fst (ProcessGroupNCCL_ctor st r sz nd w)) =
   to_string (m_processGroupCounter w + 1)"
  by (simp add: ProcessGroupNCCL_ctor_def Let_def)

lemma dtor_counter:
  "m_processGroupCounter (snd (ProcessGroupNCCL_dtor pg w)) = m_processGroupCounter w"
  by (simp add: ProcessGroupNCCL_dtor_def bindM_def liftE_def split: sum.splits)

lemma Store_set_counter:
  "m_processGroupCounter (snd (Store_set st k v w)) = m_processGroupCounter w"
  by (simp add: Store_set_def)

lemma Store_get_counter:
  "m_processGroupCounter (snd (Store_get st k w)) = m_processGroupCounter w"
  by (simp add: Store_get_def split: option.splits)

lemma broadcastUniqueNCCLID_counter:
  "m_processGroupCounter (snd (broadcastUniqueNCCLID pg ncclID w)) = m_processGroupCounter w"
  by (simp add: broadcastUniqueNCCLID_def bindM_def liftE_def Let_def returnM_def throwM_def
      Store_set_def Store_get_def split: sum.splits option.splits)

lemma run_ops_ids:
  "run_ops ops (gs, w) = (gs', w') \<Longrightarrow>
   (\<exists>new. gs' = gs @ new \<and>
      map m_processGroupID new =
        map (\<lambda>k. to_string (m_processGroupCounter w + 1 + int k)) [0 ..< length new] \<and>
      m_processGroupCounter w' = m_processGroupCounter w + int (length new))"
proof (induction ops arbitrary: gs w)
  case Nil
  then show ?case by simp
next
  case (Cons op ops)
  show ?case
  proof (cases op)
    case (Construct st r sz nd)
    let ?pg = "fst (ProcessGroupNCCL_ctor st r sz nd w)"
    let ?w1 = "snd (ProcessGroupNCCL_ctor st r sz nd w)"
    from Cons.prems Construct have "run_ops ops (gs @ [?pg], ?w1) = (gs', w')" by simp
    from Cons.IH [OF this] obtain new where new: "gs' = (gs @ [?pg]) @ new"
      "map m_processGroupID new =
        map (\<lambda>k. to_string (m_processGroupCounter ?w1 + 1 + int k)) [0 ..< length new]"
      "m_processGroupCounter w' = m_processGroupCounter ?w1 + int (length new)" by blast
    have "map m_processGroupID (?pg # new) =
        map (\<lambda>k. to_string (m_processGroupCounter w + 1 + int k)) [0 ..< length (?pg # new)]"
      using new(2)
      by (simp add: ctor_id ctor_counter upt_conv_Cons map_Suc_upt [symmetric] add.assoc
          del: upt_Suc)
    moreover have "gs' = gs @ (?pg # new)" using new(1) by simp
    moreover have "m_processGroupCounter w' = m_processGroupCounter w + int (length (?pg # new))"
      using new(3) by (simp add: ctor_counter)
    ultimately show ?thesis by blast
  next
    case (Destroy k)
    let ?w1 = "if k < length gs then snd (ProcessGroupNCCL_dtor (gs ! k) w) else w"
    from Cons.prems Destroy have "run_ops ops (gs, ?w1) = (gs', w')"
      by (simp split del: if_split cong: if_cong)
    moreover have "m_processGroupCounter ?w1 = m_processGroupCounter w"
      by (simp add: dtor_counter)
    ultimately show ?thesis using Cons.IH [of gs ?w1] by (simp only:)
  next
    case (Exchange k ncclID)
    let ?w1 = "if k < length gs then snd (broadcastUniqueNCCLID (gs ! k) ncclID w) else w"
    from Cons.prems Exchange have "run_ops ops (gs, ?w1) = (gs', w')"
      by (simp split del: if_split cong: if_cong)
    moreover have "m_processGroupCounter ?w1 = m_processGroupCounter w"
      by (simp add: broadcastUniqueNCCLID_counter)
    ultimately show ?thesis using Cons.IH [of gs ?w1] by (simp only:)
  qed
qed

lemma distinct_ids:
  "distinct (map (\<lambda>k. to_string (c + int k)) [0 ..< n])"
  by (auto simp: distinct_map inj_on_def dest: to_string_inj)

text \<open>
  C9. The constructor adds one to the counter of the process and gives the new group the
  decimal form of the new count as its identifier; the destructor leaves the counter as
  it is. So in every run of a process, whatever groups it constructs, destroys and lets
  exchange identifiers in whatever order, the groups get the counts that follow the one
  the run started from, one after the other in the order of their construction; their
  identifiers are pairwise different, and the counter never goes down. From the start
  of the process the group constructed as number \<open>k\<close> has the identifier \<open>k\<close>.
\<close>

theorem group_ids_increase:
  "m_processGroupCounter (snd (ProcessGroupNCCL_ctor st r sz nd w)) = m_processGroupCounter w + 1
   \<and> m_processGroupID (fst (ProcessGroupNCCL_ctor st r sz nd w)) =
       to_string (m_processGroupCounter w + 1)
   \<and> m_processGroupCounter (snd (ProcessGroupNCCL_dtor pg w)) = m_processGroupCounter w
   \<and> (run_ops ops ([], w) = (gs, w') \<longrightarrow>
        map m_processGroupID gs =
          map (\<lambda>k. to_string (m_processGroupCounter w + 1 + int k)) [0 ..< length gs]
        \<and> distinct (map m_processGroupID gs)
        \<and> m_processGroupCounter w' = m_processGroupCounter w + int (length gs))
   \<and> (run_ops ops ([], initial_world) = (gs, w') \<longrightarrow>
        map m_processGroupID gs = map (\<lambda>k. to_string (int k)) [0 ..< length gs])"
proof -
  have a: "run_ops ops ([], v) = (gs, w') \<Longrightarrow>
        map m_processGroupID gs =
          map (\<lambda>k. to_string (m_processGroupCounter v + 1 + int k)) [0 ..< length gs]
        \<and> m_processGroupCounter w' = m_processGroupCounter v + int (length gs)" for v
    using run_ops_ids [of ops "[]" v gs w'] by auto
  have b: "run_ops ops ([], w) = (gs, w') \<Longrightarrow> distinct (map m_processGroupID gs)"
    using a [of w] distinct_ids [of "m_processGroupCounter w + 1" "length gs"] by simp
  have c: "run_ops ops ([], initial_world) = (gs, w') \<Longrightarrow>
        map m_processGroupID gs = map (\<lambda>k. to_string (int k)) [0 ..< length gs]"
    using a [of initial_world] by (simp add: initial_world_def)
  show ?thesis
    using a [of w] b c by (simp add: ctor_counter ctor_id dtor_counter)
qed

theorem group_ids_increase_witness:
  "map m_processGroupID
     (fst (run_ops [Construct 0 0 2 8, Construct 0 0 2 8, Destroy 0, Construct 0 1 4 8]
        ([], initial_world))) = [''0'', ''1'', ''2'']"
proof -
  let ?ops = "[Construct 0 0 2 8, Construct 0 0 2 8, Destroy 0, Construct 0 1 4 8]"
  obtain gs w' where r: "run_ops ?ops ([], initial_world) = (gs, w')"
    by (cases "run_ops ?ops ([], initial_world)")
  have "length (fst (run_ops ?ops ([], initial_world))) = 3" by simp
  with r have l: "length gs = 3" by simp
  have "map m_processGroupID gs = map (\<lambda>k. to_string (int k)) [0 ..< length gs]"
    using group_ids_increase [of 0 0 0 0 initial_world undefined ?ops gs w'] r
    by blast
  also have "\<dots> = [''0'', ''1'', ''2'']"
    unfolding l by code_simp
  finally show ?thesis using r by simp
qed





















lemma use_after_destroy_example:
  "emitted store_key (trace (snd (run_ops
     [Construct 0 0 2 8, Exchange 0 (replicate 128 7), Exchange 0 (replicate 128 7),
      Destroy 0, Exchange 0 (replicate 128 7)] ([], initial_world)))) =
   [''0_0'', ''0_1'', ''0_1'']"
  by code_simp


section \<open>Rules for methods with effects\<close>

lemma tripleD_Inr:
  assumes "triple P m Q E" "P s" "m s = (Inr x, s')"
  shows "Q x s'"
proof -
  from assms(1,2) have "case m s of (Inl e, s') \<Rightarrow> E s' | (Inr x, s') \<Rightarrow> Q x s'"
    by (simp add: triple_def)
  with assms(3) show ?thesis by simp
qed

lemma tripleD_Inl:
  assumes "triple P m Q E" "P s" "m s = (Inl e, s')"
  shows "E s'"
proof -
  from assms(1,2) have "case m s of (Inl e, s') \<Rightarrow> E s' | (Inr x, s') \<Rightarrow> Q x s'"
    by (simp add: triple_def)
  with assms(3) show ?thesis by simp
qed

lemma tripleI:
  assumes "\<And>s e s'. P s \<Longrightarrow> m s = (Inl e, s') \<Longrightarrow> E s'"
    and "\<And>s x s'. P s \<Longrightarrow> m s = (Inr x, s') \<Longrightarrow> Q x s'"
  shows "triple P m Q E"
  unfolding triple_def
proof (intro allI impI)
  fix s assume p: "P s"
  obtain r s' where m: "m s = (r, s')" by (cases "m s")
  show "case m s of (Inl e, s') \<Rightarrow> E s' | (Inr x, s') \<Rightarrow> Q x s'"
  proof (cases r)
    case (Inl e)
    with m assms(1) [OF p] show ?thesis by simp
  next
    case (Inr x)
    with m assms(2) [OF p] show ?thesis by simp
  qed
qed

lemma triple_conseq:
  assumes "triple P' m Q' E'" "\<And>s. P s \<Longrightarrow> P' s" "\<And>x s. Q' x s \<Longrightarrow> Q x s"
    "\<And>s. E' s \<Longrightarrow> E s"
  shows "triple P m Q E"
proof (rule tripleI)
  fix s e s' assume "P s" "m s = (Inl e, s')"
  then show "E s'" using assms(1,2,4) tripleD_Inl by metis
next
  fix s x s' assume "P s" "m s = (Inr x, s')"
  then show "Q x s'" using assms(1,2,3) tripleD_Inr by metis
qed

lemma triple_returnM: "(\<And>s. P s \<Longrightarrow> Q x s) \<Longrightarrow> triple P (returnM x) Q E"
  by (simp add: triple_def returnM_def)

lemma triple_throwM: "(\<And>s. P s \<Longrightarrow> E s) \<Longrightarrow> triple P (throwM e) Q E"
  by (simp add: triple_def throwM_def)

lemma triple_liftE:
  "(\<And>s. P s \<Longrightarrow> E s) \<Longrightarrow> (\<And>x s. P s \<Longrightarrow> Q x s) \<Longrightarrow> triple P (liftE r) Q E"
  by (cases r) (simp_all add: triple_def liftE_def)

lemma triple_bindM:
  assumes "triple P m R E" "\<And>x. triple (R x) (f x) Q E"
  shows "triple P (bindM m f) Q E"
proof (rule tripleI)
  fix s e s' assume p: "P s" and b: "bindM m f s = (Inl e, s')"
  obtain r s1 where m: "m s = (r, s1)" by (cases "m s")
  show "E s'"
  proof (cases r)
    case (Inl e1)
    with m b have "s' = s1" by (simp add: bindM_def)
    with Inl m p assms(1) show ?thesis using tripleD_Inl by metis
  next
    case (Inr x)
    with m b have "f x s1 = (Inl e, s')" by (simp add: bindM_def)
    moreover from Inr m p assms(1) have "R x s1" using tripleD_Inr by metis
    ultimately show ?thesis using assms(2) tripleD_Inl by metis
  qed
next
  fix s y s' assume p: "P s" and b: "bindM m f s = (Inr y, s')"
  obtain r s1 where m: "m s = (r, s1)" by (cases "m s")
  show "Q y s'"
  proof (cases r)
    case (Inl e1)
    with m b show ?thesis by (simp add: bindM_def)
  next
    case (Inr x)
    with m b have "f x s1 = (Inr y, s')" by (simp add: bindM_def)
    moreover from Inr m p assms(1) have "R x s1" using tripleD_Inr by metis
    ultimately show ?thesis using assms(2) tripleD_Inr by metis
  qed
qed

lemma triple_vec_at:
  "(\<And>s. P s \<Longrightarrow> E s) \<Longrightarrow> (\<And>s. P s \<Longrightarrow> i < length v \<Longrightarrow> Q (v ! i) s) \<Longrightarrow>
   triple P (vec_at v i) Q E"
  by (simp add: triple_def vec_at_def returnM_def throwM_def)

lemma triple_liftW:
  assumes "\<And>pg. triple (\<lambda>w. P (pg, w)) m (\<lambda>x w. Q x (pg, w)) (\<lambda>w. E (pg, w))"
  shows "triple P (liftW m) Q E"
proof (rule tripleI)
  fix s e s' assume p: "P s" and l: "liftW m s = (Inl e, s')"
  obtain r w1 where m: "m (snd s) = (r, w1)" by (cases "m (snd s)")
  with l have "r = Inl e" "s' = (fst s, w1)" by (simp_all add: liftW_def)
  moreover from p have "P (fst s, snd s)" by simp
  ultimately show "E s'" using m tripleD_Inl [OF assms, of "fst s" "snd s" e w1] by simp
next
  fix s x s' assume p: "P s" and l: "liftW m s = (Inr x, s')"
  obtain r w1 where m: "m (snd s) = (r, w1)" by (cases "m (snd s)")
  with l have "r = Inr x" "s' = (fst s, w1)" by (simp_all add: liftW_def)
  moreover from p have "P (fst s, snd s)" by simp
  ultimately show "Q x s'" using m tripleD_Inr [OF assms, of "fst s" "snd s" x w1] by simp
qed

text \<open>A loop whose body keeps an invariant keeps it.\<close>

lemma triple_forM_inv:
  assumes "\<And>x. x \<in> set xs \<Longrightarrow> triple I (f x) (\<lambda>_. I) E"
  shows "triple I (forM xs f) (\<lambda>_. I) E"
  using assms
proof (induction xs)
  case Nil
  show ?case by (simp add: triple_returnM)
next
  case (Cons x xs)
  show ?case
    unfolding forM.simps
    by (rule triple_bindM [where R = "\<lambda>_. I"]) (simp_all add: Cons)
qed

lemma triple_mapM_inv:
  assumes "\<And>x. x \<in> set xs \<Longrightarrow> triple I (f x) (\<lambda>_. I) E"
  shows "triple I (mapM f xs) (\<lambda>_. I) E"
  using assms
proof (induction xs)
  case Nil
  show ?case by (simp add: triple_returnM)
next
  case (Cons x xs)
  show ?case
    unfolding mapM.simps
    by (rule triple_bindM [where R = "\<lambda>_. I"], simp add: Cons,
        rule triple_bindM [where R = "\<lambda>_. I"], simp add: Cons, simp add: triple_returnM)
qed

text \<open>
  A loop with an invariant \<open>I\<close> of the elements done so far. When the body throws, the
  element at hand may or may not have been done.
\<close>

lemma triple_forM_steps:
  assumes "\<And>pre x post. xs = pre @ x # post \<Longrightarrow>
      triple (I pre) (f x) (\<lambda>_. I (pre @ [x])) (\<lambda>s. I pre s \<or> I (pre @ [x]) s)"
  shows "triple (I []) (forM xs f) (\<lambda>_. I xs) (\<lambda>s. \<exists>pre post. xs = pre @ post \<and> I pre s)"
proof -
  have "triple (I done) (forM rest f) (\<lambda>_. I (done @ rest))
      (\<lambda>s. \<exists>pre post. done @ rest = pre @ post \<and> I pre s)"
    if "xs = done @ rest" for "done" rest
    using that
  proof (induction rest arbitrary: "done")
    case Nil
    show ?case by (simp add: triple_returnM)
  next
    case (Cons x rest)
    have body: "triple (I done) (f x) (\<lambda>_. I (done @ [x]))
        (\<lambda>s. I done s \<or> I (done @ [x]) s)"
      using Cons.prems by (rule assms)
    have rest: "triple (I (done @ [x])) (forM rest f) (\<lambda>_. I ((done @ [x]) @ rest))
      (\<lambda>s. \<exists>pre post. (done @ [x]) @ rest = pre @ post \<and> I pre s)"
      using Cons.prems by (intro Cons.IH) simp
    show ?case
      unfolding forM.simps
    proof (rule triple_bindM [where R = "\<lambda>_. I (done @ [x])"])
      show "triple (I done) (f x) (\<lambda>_. I (done @ [x]))
          (\<lambda>s. \<exists>pre post. done @ x # rest = pre @ post \<and> I pre s)"
      proof (rule triple_conseq [OF body])
        fix s assume "I done s \<or> I (done @ [x]) s"
        then show "\<exists>pre post. done @ x # rest = pre @ post \<and> I pre s"
        proof
          assume "I done s"
          then show ?thesis by blast
        next
          assume "I (done @ [x]) s"
          moreover have "done @ x # rest = (done @ [x]) @ rest" by simp
          ultimately show ?thesis by blast
        qed
      qed simp_all
      show "triple (I (done @ [x])) (forM rest f) (\<lambda>_. I (done @ x # rest))
          (\<lambda>s. \<exists>pre post. done @ x # rest = pre @ post \<and> I pre s)"
        using rest by simp
    qed
  qed
  from this [of "[]" xs] show ?thesis by simp
qed

lemma quiet_onI:
  "(\<And>a. triple (\<lambda>s. emitted proj (tr s) = a) m (\<lambda>_ s. emitted proj (tr s) = a)
        (\<lambda>s. emitted proj (tr s) = a)) \<Longrightarrow> quiet_on tr proj m"
  by (simp add: quiet_on_def)

lemma quiet_onD:
  "quiet_on tr proj m \<Longrightarrow>
   triple (\<lambda>s. emitted proj (tr s) = a) m (\<lambda>_ s. emitted proj (tr s) = a)
        (\<lambda>s. emitted proj (tr s) = a)"
  by (simp add: quiet_on_def)

lemma quiet_on_same:
  "(\<And>s. tr (snd (m s)) = tr s) \<Longrightarrow> quiet_on tr proj m"
proof (rule quiet_onI, rule tripleI)
  fix a s e s' assume t: "\<And>s. tr (snd (m s)) = tr s" and "emitted proj (tr s) = a"
    "m s = (Inl e, s')"
  with t [of s] show "emitted proj (tr s') = a" by simp
next
  fix a s x s' assume t: "\<And>s. tr (snd (m s)) = tr s" and "emitted proj (tr s) = a"
    "m s = (Inr x, s')"
  with t [of s] show "emitted proj (tr s') = a" by simp
qed

lemma quiet_returnM: "quiet_on tr proj (returnM x)"
  by (rule quiet_on_same) (simp add: returnM_def)

lemma quiet_throwM: "quiet_on tr proj (throwM e)"
  by (rule quiet_on_same) (simp add: throwM_def)

lemma quiet_liftE: "quiet_on tr proj (liftE r)"
  by (rule quiet_on_same) (simp add: liftE_def)

lemma quiet_vec_at: "quiet_on tr proj (vec_at v i)"
  by (rule quiet_on_same) (simp add: vec_at_def returnM_def throwM_def)

lemma quiet_bindM:
  assumes "quiet_on tr proj m" "\<And>x. quiet_on tr proj (f x)"
  shows "quiet_on tr proj (bindM m f)"
proof (rule quiet_onI)
  fix a
  show "triple (\<lambda>s. emitted proj (tr s) = a) (bindM m f) (\<lambda>_ s. emitted proj (tr s) = a)
        (\<lambda>s. emitted proj (tr s) = a)"
    by (rule triple_bindM [where R = "\<lambda>_ s. emitted proj (tr s) = a"])
      (simp_all add: quiet_onD assms)
qed

lemma quiet_if:
  "(b \<Longrightarrow> quiet_on tr proj m) \<Longrightarrow> (\<not> b \<Longrightarrow> quiet_on tr proj n) \<Longrightarrow>
   quiet_on tr proj (if b then m else n)"
  by simp

lemma quiet_forM: "(\<And>x. x \<in> set xs \<Longrightarrow> quiet_on tr proj (f x)) \<Longrightarrow> quiet_on tr proj (forM xs f)"
  by (intro quiet_onI triple_forM_inv) (simp add: quiet_onD)

lemma quiet_mapM: "(\<And>x. x \<in> set xs \<Longrightarrow> quiet_on tr proj (f x)) \<Longrightarrow> quiet_on tr proj (mapM f xs)"
  by (intro quiet_onI triple_mapM_inv) (simp add: quiet_onD)

lemma quiet_liftW: "quiet_on trace proj m \<Longrightarrow> quiet_on (\<lambda>s. trace (snd s)) proj (liftW m)"
  by (intro quiet_onI triple_liftW) (simp add: quiet_onD)

lemma quiet_call:
  assumes "m = (\<lambda>w. (r w, w\<lparr>trace := trace w @ [c]\<rparr>))" "proj c = None"
  shows "quiet_on trace proj m"
  by (rule quiet_onI, rule tripleI) (auto simp: assms emitted_snoc_None)

lemma quiet_cuda_checked: "proj c = None \<Longrightarrow> quiet_on trace proj (cuda_checked env c)"
  by (rule quiet_call [where r = "\<lambda>w. if cuda_result env (trace w) c = cudaSuccess then Inr ()
      else Inl (CudaCheckFailed (cuda_result env (trace w) c))"])
    (auto simp: cuda_checked_eq)

lemma quiet_nccl_checked: "proj c = None \<Longrightarrow> quiet_on trace proj (nccl_checked env c)"
  by (rule quiet_call [where r = "\<lambda>w. if nccl_result env (trace w) c = ncclSuccess then Inr ()
      else Inl (NcclCheckFailed (nccl_result env (trace w) c))"])
    (auto simp: nccl_checked_eq)


lemma quiet_call_at:
  assumes "\<And>w. m w = (r w, w\<lparr>trace := trace w @ [c w]\<rparr>)" "\<And>w. proj (c w) = None"
  shows "quiet_on trace proj m"
  by (rule quiet_onI, rule tripleI) (auto simp: assms emitted_snoc_None)

lemma quiet_on_cases:
  assumes "\<And>s. \<exists>m'. quiet_on tr proj m' \<and> m s = m' s"
  shows "quiet_on tr proj m"
proof (rule quiet_onI, rule tripleI)
  fix a s e s' assume p: "emitted proj (tr s) = a" and m: "m s = (Inl e, s')"
  from assms [of s] obtain m' where "quiet_on tr proj m'" "m s = m' s" by blast
  with p m show "emitted proj (tr s') = a"
    using tripleD_Inl [OF quiet_onD, of tr proj m' s a e s'] by simp
next
  fix a s x s' assume p: "emitted proj (tr s) = a" and m: "m s = (Inr x, s')"
  from assms [of s] obtain m' where "quiet_on tr proj m'" "m s = m' s" by blast
  with p m show "emitted proj (tr s') = a"
    using tripleD_Inr [OF quiet_onD, of tr proj m' s a x s'] by simp
qed

lemma quiet_setDevice:
  "(\<And>c. plain_call c \<Longrightarrow> proj c = None) \<Longrightarrow> quiet_on trace proj (setDevice env d)"
  by (simp add: setDevice_def quiet_cuda_checked)

lemma quiet_CUDAEvent_create:
  assumes "\<And>c. plain_call c \<Longrightarrow> proj c = None"
  shows "quiet_on trace proj (CUDAEvent_create env)"
  by (rule quiet_call_at [where c = "\<lambda>w. cudaEventCreateWithFlags (length (trace w))"
        and r = "\<lambda>w. fst (CUDAEvent_create env w)"])
    (auto simp: CUDAEvent_create_def cuda_checked_eq bindM_def returnM_def assms)

lemma quiet_CUDAStream_create:
  assumes "\<And>c. plain_call c \<Longrightarrow> proj c = None"
  shows "quiet_on trace proj (CUDAStream_create env)"
  by (rule quiet_call_at [where c = "\<lambda>w. cudaStreamCreate (length (trace w))"
        and r = "\<lambda>w. fst (CUDAStream_create env w)"])
    (auto simp: CUDAStream_create_def cuda_checked_eq bindM_def returnM_def assms)

lemma quiet_NCCLComm_create:
  assumes "\<And>h n i r. proj (ncclCommInitRank h n i r) = None"
  shows "quiet_on trace proj (NCCLComm_create env numRanks rank ncclID)"
  by (rule quiet_call_at [where c = "\<lambda>w. ncclCommInitRank (length (trace w)) numRanks ncclID rank"
        and r = "\<lambda>w. fst (NCCLComm_create env numRanks rank ncclID w)"])
    (auto simp: NCCLComm_create_def nccl_checked_eq bindM_def returnM_def assms)

lemma quiet_getUniqueId:
  assumes "\<And>c. plain_call c \<Longrightarrow> proj c = None"
  shows "quiet_on trace proj (getUniqueId env)"
  by (rule quiet_call_at [where c = "\<lambda>w. ncclGetUniqueId"
        and r = "\<lambda>w. fst (getUniqueId env w)"])
    (auto simp: getUniqueId_def nccl_checked_eq bindM_def returnM_def assms)

lemma quiet_current_stream: "quiet_on trace proj (THCState_getCurrentStreamOnDevice env d)"
  by (rule quiet_on_same) (simp add: THCState_getCurrentStreamOnDevice_def)

lemma quiet_Store_set:
  assumes "\<And>c. plain_call c \<Longrightarrow> proj c = None"
  shows "quiet_on trace proj (Store_set st key val)"
  by (rule quiet_onI, rule tripleI) (auto simp: Store_set_def emitted_snoc_None assms)

lemma quiet_Store_get:
  assumes "\<And>c. plain_call c \<Longrightarrow> proj c = None"
  shows "quiet_on trace proj (Store_get st key)"
  by (rule quiet_onI, rule tripleI)
    (auto simp: Store_get_def emitted_snoc_None assms split: option.splits)

lemma quiet_group_start:
  "(\<And>c. plain_call c \<Longrightarrow> proj c = None) \<Longrightarrow> quiet_on trace proj (nccl_checked env ncclGroupStart)"
  by (simp add: quiet_nccl_checked)

lemma quiet_group_end:
  "(\<And>c. plain_call c \<Longrightarrow> proj c = None) \<Longrightarrow> quiet_on trace proj (nccl_checked env ncclGroupEnd)"
  by (simp add: quiet_nccl_checked)

lemmas quiet_intros =
  quiet_bindM quiet_returnM quiet_throwM quiet_liftE quiet_vec_at quiet_forM quiet_mapM
  quiet_liftW quiet_setDevice quiet_CUDAEvent_create quiet_CUDAStream_create
  quiet_getUniqueId quiet_current_stream quiet_Store_set quiet_Store_get quiet_group_start
  quiet_group_end quiet_cuda_checked quiet_nccl_checked

lemma quiet_broadcastUniqueNCCLID:
  assumes "\<And>c. plain_call c \<Longrightarrow> proj c = None"
  shows "quiet_on trace proj (broadcastUniqueNCCLID pg ncclID)"
  unfolding broadcastUniqueNCCLID_def Let_def
proof (intro quiet_bindM quiet_liftE)
  fix key
  show "quiet_on trace proj (\<lambda>w. (Inr (counter_at (m_pgUniqueNCCLIDCnt w) (to_ssize_t key) + 1),
      w\<lparr>m_pgUniqueNCCLIDCnt := (m_pgUniqueNCCLIDCnt w)
        (to_ssize_t key \<mapsto> counter_at (m_pgUniqueNCCLIDCnt w) (to_ssize_t key) + 1)\<rparr>))"
    by (rule quiet_on_same) simp
next
  fix key cnt
  show "quiet_on trace proj
          (if m_rank pg = 0
           then bindM (Store_set (m_store pg) (m_processGroupID pg @ ''_'' @ to_string cnt)
                  (take NCCL_UNIQUE_ID_BYTES ncclID)) (\<lambda>_. returnM ncclID)
           else bindM (Store_get (m_store pg) (m_processGroupID pg @ ''_'' @ to_string cnt))
                  (\<lambda>ncclIDVal. if length ncclIDVal \<noteq> NCCL_UNIQUE_ID_BYTES
                     then throwM err_unexpected_id_length
                     else returnM (take NCCL_UNIQUE_ID_BYTES ncclIDVal)))"
    by (auto intro!: quiet_intros simp: assms)
qed

lemma quiet_syncStreams:
  assumes "\<And>c. plain_call c \<Longrightarrow> proj c = None"
  shows "quiet_on trace proj (syncStreams env devices ncclEvents ncclStreams)"
  unfolding syncStreams_def
  by (intro quiet_intros) (simp_all add: assms)

lemma quiet_WorkNCCL_ctor:
  assumes "\<And>c. plain_call c \<Longrightarrow> proj c = None"
  shows "quiet_on trace proj (WorkNCCL_ctor env devices)"
  unfolding WorkNCCL_ctor_def
  by (intro quiet_intros) (simp_all add: assms)

lemma quiet_devNCCLCommMap_at: "quiet_on (\<lambda>s. trace (snd s)) proj (devNCCLCommMap_at key)"
  by (rule quiet_on_same) (simp add: devNCCLCommMap_at_def split: option.splits)

lemma quiet_ncclStreams_at: "quiet_on (\<lambda>s. trace (snd s)) proj (ncclStreams_at key)"
  by (rule quiet_on_same) (simp add: ncclStreams_at_def split: option.splits)

lemma quiet_ncclEvents_at: "quiet_on (\<lambda>s. trace (snd s)) proj (ncclEvents_at key)"
  by (rule quiet_on_same) (simp add: ncclEvents_at_def split: option.splits)

lemma quiet_record_events:
  assumes "\<And>c. plain_call c \<Longrightarrow> proj c = None"
  shows "quiet_on (\<lambda>s. trace (snd s)) proj (record_events env tensors key work)"
  unfolding record_events_def
  by (intro quiet_intros quiet_ncclStreams_at) (simp_all add: assms)

lemma quiet_getNCCLComm_create:
  assumes "\<And>c. plain_call c \<Longrightarrow> proj c = None"
    and "\<And>h n i r. proj (ncclCommInitRank h n i r) = None"
  shows "quiet_on (\<lambda>s. trace (snd s)) proj (getNCCLComm_create env pg key devices)"
  unfolding getNCCLComm_create_def
proof (intro quiet_bindM quiet_liftW quiet_mapM quiet_devNCCLCommMap_at)
  show "quiet_on trace proj (if m_rank pg = 0 then getUniqueId env
      else returnM (replicate NCCL_UNIQUE_ID_BYTES 0))"
    by (auto intro!: quiet_intros simp: assms)
next
  fix created :: "(ncclComm_t \<times> cudaStream_t \<times> cudaEvent_t) list"
  show "quiet_on (\<lambda>s. trace (snd s)) proj (\<lambda>t. (Inr (),
       ((fst t)\<lparr>m_devNCCLCommMap :=
                   emplace (m_devNCCLCommMap (fst t)) key (map fst created),
                 m_ncclStreams :=
                   emplace (m_ncclStreams (fst t)) key (map (fst \<circ> snd) created),
                 m_ncclEvents :=
                   emplace (m_ncclEvents (fst t)) key (map (snd \<circ> snd) created)\<rparr>,
        snd t)))"
    by (rule quiet_on_same) simp
qed (auto intro!: quiet_intros quiet_broadcastUniqueNCCLID quiet_NCCLComm_create simp: assms)

lemma quiet_getNCCLComm:
  assumes "\<And>c. plain_call c \<Longrightarrow> proj c = None"
    and "\<And>h n i r. proj (ncclCommInitRank h n i r) = None"
  shows "quiet_on (\<lambda>s. trace (snd s)) proj (getNCCLComm env key devices)"
proof (rule quiet_on_cases)
  fix s
  show "\<exists>m'. quiet_on (\<lambda>s. trace (snd s)) proj m' \<and> getNCCLComm env key devices s = m' s"
  proof (cases "key = []")
    case True
    then have "getNCCLComm env key devices s = throwM err_devices_not_known s"
      by (simp add: getNCCLComm_def)
    then show ?thesis using quiet_throwM by blast
  next
    case False
    show ?thesis
    proof (cases "key \<in> dom (m_devNCCLCommMap (fst s))")
      case True
      with False have "getNCCLComm env key devices s = devNCCLCommMap_at key s"
        by (simp add: getNCCLComm_def)
      then show ?thesis using quiet_devNCCLCommMap_at by blast
    next
      case n: False
      with False have "getNCCLComm env key devices s =
          getNCCLComm_create env (fst s) key devices s"
        by (simp add: getNCCLComm_def)
      moreover have "quiet_on (\<lambda>s. trace (snd s)) proj
          (getNCCLComm_create env (fst s) key devices)"
        by (rule quiet_getNCCLComm_create) (simp_all add: assms)
      ultimately show ?thesis by blast
    qed
  qed
qed

lemma quiet_collective_prologue:
  assumes "\<And>c. plain_call c \<Longrightarrow> proj c = None"
    and "\<And>h n i r. proj (ncclCommInitRank h n i r) = None"
  shows "quiet_on (\<lambda>s. trace (snd s)) proj (collective_prologue env tensors)"
  unfolding collective_prologue_def Let_def
  by (intro quiet_intros quiet_getNCCLComm quiet_ncclEvents_at quiet_ncclStreams_at
      quiet_syncStreams quiet_WorkNCCL_ctor) (simp_all add: assms)

section \<open>Properties of the collectives\<close>

lemma triple_cases:
  assumes "\<And>s. P s \<Longrightarrow> \<exists>m'. triple P m' Q E \<and> m s = m' s"
  shows "triple P m Q E"
proof (rule tripleI)
  fix s e s' assume p: "P s" and m: "m s = (Inl e, s')"
  from assms [OF p] obtain m' where "triple P m' Q E" "m s = m' s" by blast
  with p m show "E s'" using tripleD_Inl [of P m' Q E s e s'] by simp
next
  fix s x s' assume p: "P s" and m: "m s = (Inr x, s')"
  from assms [OF p] obtain m' where "triple P m' Q E" "m s = m' s" by blast
  with p m show "Q x s'" using tripleD_Inr [of P m' Q E s x s'] by simp
qed

text \<open>A quiet step before the rest of a method.\<close>

lemma triple_quiet_bindM:
  assumes "quiet_on tr proj m"
    and "\<And>x. triple (\<lambda>s. emitted proj (tr s) = a) (g x) Q E"
    and "\<And>s. emitted proj (tr s) = a \<Longrightarrow> E s"
  shows "triple (\<lambda>s. emitted proj (tr s) = a) (bindM m g) Q E"
proof (rule triple_bindM [where R = "\<lambda>_ s. emitted proj (tr s) = a"])
  show "triple (\<lambda>s. emitted proj (tr s) = a) m (\<lambda>_ s. emitted proj (tr s) = a) E"
    by (rule triple_conseq [OF quiet_onD [OF assms(1), of a]]) (simp_all add: assms(3))
qed (rule assms(2))

text \<open>A quiet method, with any postcondition for its exception that the invariant implies.\<close>

lemma triple_quiet:
  assumes "quiet_on tr proj m"
    and "\<And>x s. emitted proj (tr s) = a \<Longrightarrow> Q x s"
    and "\<And>s. emitted proj (tr s) = a \<Longrightarrow> E s"
  shows "triple (\<lambda>s. emitted proj (tr s) = a) m Q E"
  by (rule triple_conseq [OF quiet_onD [OF assms(1), of a]]) (simp_all add: assms(2,3))

lemma triple_emit_nccl:
  assumes "proj c = Some x"
  shows "triple (\<lambda>s. emitted proj (trace (snd s)) = a) (liftW (nccl_checked env c))
     (\<lambda>_ s. emitted proj (trace (snd s)) = a @ [x])
     (\<lambda>s. emitted proj (trace (snd s)) = a @ [x])"
  by (rule tripleI)
    (auto simp: liftW_def nccl_checked_eq emitted_snoc_Some assms split: if_splits)

lemma prefix_of_upt:
  assumes "[0 ..< n] = pre @ post"
  shows "pre = [0 ..< length pre] \<and> length pre \<le> n"
proof -
  have l: "length pre \<le> n"
    using arg_cong [OF assms, of length] by simp
  have "pre = take (length pre) [0 ..< n]" by (simp add: assms)
  also have "\<dots> = [0 ..< length pre]" using l by (simp add: take_upt)
  finally show ?thesis using l by simp
qed

lemma map_nth_take: "k \<le> length xs \<Longrightarrow> map (\<lambda>i. g (xs ! i)) [0 ..< k] = map g (take k xs)"
  by (rule nth_equalityI) simp_all


lemma allreduce_buffers_plain: "plain_call c \<Longrightarrow> allreduce_buffers c = None"
  by (cases c) simp_all

lemma allreduce_calls_triple:
  fixes a :: "(nat \<times> nat \<times> 64 word) list" and tensors :: "Tensor list"
  defines "I \<equiv> (\<lambda>pre s. emitted allreduce_buffers (trace (snd s)) =
      a @ map (\<lambda>i. (data_ptr (tensors ! i), data_ptr (tensors ! i), numel (tensors ! i))) pre)"
  shows "triple (I [])
     (allreduce_calls env tensors opts devices key ncclComms)
     (\<lambda>_. I [0 ..< length tensors])
     (\<lambda>s. \<exists>pre post. [0 ..< length tensors] = pre @ post \<and> I pre s)"
  unfolding allreduce_calls_def
proof (rule triple_forM_steps)
  fix pre i post
  let ?b = "a @ map (\<lambda>i. (data_ptr (tensors ! i), data_ptr (tensors ! i), numel (tensors ! i))) pre"
  let ?x = "(data_ptr (tensors ! i), data_ptr (tensors ! i), numel (tensors ! i))"
  have I_pre: "I pre = (\<lambda>s. emitted allreduce_buffers (trace (snd s)) = ?b)"
    by (simp add: I_def)
  have I_next: "I (pre @ [i]) = (\<lambda>s. emitted allreduce_buffers (trace (snd s)) = ?b @ [?x])"
    by (simp add: I_def)
  show "triple (I pre)
     (bindM (liftW (setDevice env (devices ! i))) (\<lambda>_.
       bindM (ncclStreams_at key) (\<lambda>streams.
       bindM (vec_at streams i) (\<lambda>ncclStream.
       bindM (liftE (getNcclDataType (scalarType (tensors ! i)))) (\<lambda>dataType.
       bindM (vec_at ncclComms i) (\<lambda>comm.
       liftW (nccl_checked env
         (ncclAllReduce (data_ptr (tensors ! i)) (data_ptr (tensors ! i))
            (numel (tensors ! i)) dataType (ncclOp (reduceOp opts)) comm ncclStream))))))))
     (\<lambda>_. I (pre @ [i])) (\<lambda>s. I pre s \<or> I (pre @ [i]) s)"
    unfolding I_pre I_next
  proof (intro triple_quiet_bindM)
    fix u streams ncclStream dataType comm
    show "triple (\<lambda>s. emitted allreduce_buffers (trace (snd s)) = ?b)
       (liftW (nccl_checked env
         (ncclAllReduce (data_ptr (tensors ! i)) (data_ptr (tensors ! i))
            (numel (tensors ! i)) dataType (ncclOp (reduceOp opts)) comm ncclStream)))
       (\<lambda>_ s. emitted allreduce_buffers (trace (snd s)) = ?b @ [?x])
       (\<lambda>s. emitted allreduce_buffers (trace (snd s)) = ?b \<or>
            emitted allreduce_buffers (trace (snd s)) = ?b @ [?x])"
    proof (rule triple_conseq [OF triple_emit_nccl [where x = ?x and a = ?b]])
      show "allreduce_buffers
         (ncclAllReduce (data_ptr (tensors ! i)) (data_ptr (tensors ! i))
            (numel (tensors ! i)) dataType (ncclOp (reduceOp opts)) comm ncclStream) = Some ?x"
        by simp
    qed (assumption, assumption, erule disjI2)
  qed (auto intro!: quiet_intros quiet_ncclStreams_at simp: allreduce_buffers_plain)
qed

text \<open>
  The two collectives differ in the loop that issues the calls. What the loop emits for
  a projection that the other steps are quiet for is what the collective emits.
\<close>

lemma collective_triple:
  fixes a :: "'x list" and tensors :: "Tensor list" and f :: "nat \<Rightarrow> 'x"
    and proj :: "call \<Rightarrow> 'x option"
  defines "I \<equiv> (\<lambda>pre (s :: ProcessGroupNCCL \<times> world).
      emitted proj (trace (snd s)) = a @ map f pre)"
  defines "E \<equiv> (\<lambda>s. \<exists>pre post. [0 ..< length tensors] = pre @ post \<and> I pre s)"
  assumes plain: "\<And>c. plain_call c \<Longrightarrow> proj c = None"
    and init: "\<And>h n i r. proj (ncclCommInitRank h n i r) = None"
    and calls: "\<And>devices key ncclComms.
      triple (I []) (calls devices key ncclComms) (\<lambda>_. I [0 ..< length tensors]) E"
  shows "triple (I [])
     (bindM (liftE check) (\<lambda>_.
      bindM (collective_prologue env tensors) (\<lambda>(devices, key, ncclComms, work).
      bindM (liftW (nccl_checked env ncclGroupStart)) (\<lambda>_.
      bindM (calls devices key ncclComms) (\<lambda>_.
      bindM (liftW (nccl_checked env ncclGroupEnd)) (\<lambda>_.
      bindM (record_events env tensors key work) (\<lambda>_.
      returnM work)))))))
     (\<lambda>_. I [0 ..< length tensors]) E"
proof -
  have I_Nil: "I [] = (\<lambda>s. emitted proj (trace (snd s)) = a)"
    by (simp add: I_def)
  have I_all: "I [0 ..< length tensors] =
      (\<lambda>s. emitted proj (trace (snd s)) = a @ map f [0 ..< length tensors])"
    by (simp add: I_def)
  have E0: "E t" if "emitted proj (trace (snd t)) = a" for t
  proof -
    from that have "I [] t" by (simp add: I_Nil)
    moreover have "[0 ..< length tensors] = [] @ [0 ..< length tensors]" by simp
    ultimately show ?thesis unfolding E_def by blast
  qed
  have E1: "E t" if "emitted proj (trace (snd t)) = a @ map f [0 ..< length tensors]" for t
  proof -
    from that have "I [0 ..< length tensors] t" by (simp add: I_all)
    moreover have "[0 ..< length tensors] = [0 ..< length tensors] @ []" by simp
    ultimately show ?thesis unfolding E_def by blast
  qed
  have q_start: "quiet_on (\<lambda>s. trace (snd s)) proj (liftW (nccl_checked env ncclGroupStart))"
    by (auto intro!: quiet_intros simp: plain)
  have q_end: "quiet_on (\<lambda>s. trace (snd s)) proj (liftW (nccl_checked env ncclGroupEnd))"
    by (auto intro!: quiet_intros simp: plain)
  have q_rec: "quiet_on (\<lambda>s. trace (snd s)) proj (record_events env tensors key work)"
    for key work
    by (rule quiet_record_events) (rule plain)
  have tail: "triple (I [0 ..< length tensors])
      (bindM (liftW (nccl_checked env ncclGroupEnd)) (\<lambda>_.
       bindM (record_events env tensors key work) (\<lambda>_. returnM work)))
      (\<lambda>_. I [0 ..< length tensors]) E" for key work
    unfolding I_all
  proof (rule triple_quiet_bindM [OF q_end])
    show "triple (\<lambda>s. emitted proj (trace (snd s)) = a @ map f [0 ..< length tensors])
      (bindM (record_events env tensors key work) (\<lambda>_. returnM work))
      (\<lambda>_ s. emitted proj (trace (snd s)) = a @ map f [0 ..< length tensors]) E" for x
    proof (rule triple_quiet_bindM [OF q_rec])
      show "triple (\<lambda>s. emitted proj (trace (snd s)) = a @ map f [0 ..< length tensors])
        (returnM work)
        (\<lambda>_ s. emitted proj (trace (snd s)) = a @ map f [0 ..< length tensors]) E" for y
        by (rule triple_quiet [OF quiet_returnM]) (assumption, erule E1)
    qed (erule E1)
  qed (erule E1)
  have mid: "triple (I [])
      (bindM (liftW (nccl_checked env ncclGroupStart)) (\<lambda>_.
       bindM (calls devices key ncclComms) (\<lambda>_.
       bindM (liftW (nccl_checked env ncclGroupEnd)) (\<lambda>_.
       bindM (record_events env tensors key work) (\<lambda>_. returnM work)))))
      (\<lambda>_. I [0 ..< length tensors]) E" for devices key ncclComms work
    unfolding I_Nil
  proof (rule triple_quiet_bindM [OF q_start])
    show "triple (\<lambda>s. emitted proj (trace (snd s)) = a)
       (bindM (calls devices key ncclComms) (\<lambda>_.
        bindM (liftW (nccl_checked env ncclGroupEnd)) (\<lambda>_.
        bindM (record_events env tensors key work) (\<lambda>_. returnM work))))
       (\<lambda>_. I [0 ..< length tensors]) E" for x
      unfolding I_Nil [symmetric]
      by (rule triple_bindM [OF calls]) (rule tail)
  qed (erule E0)
  show ?thesis
    unfolding I_Nil
  proof (intro triple_quiet_bindM)
    fix u and x :: "int list \<times> string \<times> ncclComm_t list \<times> WorkNCCL"
    obtain devices key ncclComms work where x: "x = (devices, key, ncclComms, work)"
      by (cases x)
    show "triple (\<lambda>s. emitted proj (trace (snd s)) = a)
        (case x of (devices, key, ncclComms, work) \<Rightarrow>
          bindM (liftW (nccl_checked env ncclGroupStart)) (\<lambda>_.
          bindM (calls devices key ncclComms) (\<lambda>_.
          bindM (liftW (nccl_checked env ncclGroupEnd)) (\<lambda>_.
          bindM (record_events env tensors key work) (\<lambda>_. returnM work)))))
        (\<lambda>_. I [0 ..< length tensors]) E"
      unfolding x prod.case I_Nil [symmetric] by (rule mid)
  next
    show "quiet_on (\<lambda>s. trace (snd s)) proj (liftE check)"
      by (rule quiet_liftE)
    show "quiet_on (\<lambda>s. trace (snd s)) proj (collective_prologue env tensors)"
      by (rule quiet_collective_prologue) (simp_all add: plain init)
  qed (erule E0)+
qed

lemma allreduce_triple:
  fixes a :: "(nat \<times> nat \<times> 64 word) list" and tensors :: "Tensor list"
  defines "I \<equiv> (\<lambda>pre s. emitted allreduce_buffers (trace (snd s)) =
      a @ map (\<lambda>i. (data_ptr (tensors ! i), data_ptr (tensors ! i), numel (tensors ! i))) pre)"
  shows "triple (I []) (allreduce env tensors opts) (\<lambda>_. I [0 ..< length tensors])
     (\<lambda>s. \<exists>pre post. [0 ..< length tensors] = pre @ post \<and> I pre s)"
proof (rule triple_cases)
  fix s :: "ProcessGroupNCCL \<times> world"
  let ?E = "\<lambda>s. \<exists>pre post. [0 ..< length tensors] = pre @ post \<and> I pre s"
  let ?m = "bindM (liftE (tensorCheckHelper (m_numDevices (fst s)) tensors tensors
                     default_outputOverInput)) (\<lambda>_.
     bindM (collective_prologue env tensors) (\<lambda>(devices, key, ncclComms, work).
     bindM (liftW (nccl_checked env ncclGroupStart)) (\<lambda>_.
     bindM (allreduce_calls env tensors opts devices key ncclComms) (\<lambda>_.
     bindM (liftW (nccl_checked env ncclGroupEnd)) (\<lambda>_.
     bindM (record_events env tensors key work) (\<lambda>_.
     returnM work))))))"
  have "triple (I []) ?m (\<lambda>_. I [0 ..< length tensors]) ?E"
    unfolding I_def
    by (rule collective_triple, erule allreduce_buffers_plain, simp,
        rule allreduce_calls_triple)
  moreover have "allreduce env tensors opts s = ?m s"
    by (simp add: allreduce_def)
  ultimately show "\<exists>m'. triple (I []) m' (\<lambda>_. I [0 ..< length tensors]) ?E \<and>
      allreduce env tensors opts s = m' s" by blast
qed

lemma pair_error_in_place:
  "pair_error n0 t0 1 used (t, t) \<noteq> Some err_output_numel"
  "pair_error n0 t0 r used (t, t) \<noteq> Some err_device_mismatch"
  using errors_distinct by (auto simp: pair_error_def)

lemma tensorCheckHelper_in_place:
  "tensorCheckHelper nd ts ts 1 \<noteq> Inl err_output_numel"
  "tensorCheckHelper nd ts ts r \<noteq> Inl err_device_mismatch"
proof -
  show "tensorCheckHelper nd ts ts 1 \<noteq> Inl err_output_numel"
  proof
    assume "tensorCheckHelper nd ts ts 1 = Inl err_output_numel"
    then have "\<exists>i. check_at ts ts 1 i = Some err_output_numel"
      using errors_distinct
      by (auto simp: tensorCheckHelper_Inl_iff split: if_splits)
    then show False by (simp add: check_at_pair_error pair_error_in_place)
  qed
  show "tensorCheckHelper nd ts ts r \<noteq> Inl err_device_mismatch"
  proof
    assume "tensorCheckHelper nd ts ts r = Inl err_device_mismatch"
    then have "\<exists>i. check_at ts ts r i = Some err_device_mismatch"
      using errors_distinct
      by (auto simp: tensorCheckHelper_Inl_iff split: if_splits)
    then show False by (simp add: check_at_pair_error pair_error_in_place)
  qed
qed

lemma allreduce_validation:
  "tensorCheckHelper (m_numDevices (fst s)) tensors tensors 1 = Inl e \<Longrightarrow>
   allreduce env tensors opts s = (Inl e, s)"
  by (simp add: allreduce_def bindM_def liftE_def default_outputOverInput_def)

lemma allreduce_emitted:
  fixes tensors :: "Tensor list"
  defines "g \<equiv> (\<lambda>t. (data_ptr t, data_ptr t, numel t))"
  shows "\<exists>k \<le> length tensors.
      emitted allreduce_buffers (trace (snd (snd (allreduce env tensors opts s)))) =
      emitted allreduce_buffers (trace (snd s)) @ map g (take k tensors)"
    and "fst (allreduce env tensors opts s) = Inr work \<Longrightarrow>
      emitted allreduce_buffers (trace (snd (snd (allreduce env tensors opts s)))) =
      emitted allreduce_buffers (trace (snd s)) @ map g tensors"
proof -
  let ?a = "emitted allreduce_buffers (trace (snd s))"
  let ?f = "\<lambda>i. (data_ptr (tensors ! i), data_ptr (tensors ! i), numel (tensors ! i))"
  let ?n = "length tensors"
  note t = allreduce_triple [where a = ?a and tensors = tensors and env = env and opts = opts]
  obtain r s' where m: "allreduce env tensors opts s = (r, s')"
    by (cases "allreduce env tensors opts s")
  have all: "map ?f [0 ..< ?n] = map g tensors"
    using map_nth_take [of ?n tensors g] by (simp add: g_def)
  have ok: "emitted allreduce_buffers (trace (snd s')) = ?a @ map g tensors" if "r = Inr x" for x
  proof -
    from m that have "allreduce env tensors opts s = (Inr x, s')" by simp
    from tripleD_Inr [OF t _ this]
    have "emitted allreduce_buffers (trace (snd s')) = ?a @ map ?f [0 ..< ?n]" by simp
    then show ?thesis by (simp only: all)
  qed
  show "\<exists>k \<le> ?n. emitted allreduce_buffers (trace (snd (snd (allreduce env tensors opts s)))) =
      ?a @ map g (take k tensors)"
  proof (cases r)
    case (Inr x)
    from ok [OF Inr] have "emitted allreduce_buffers (trace (snd s')) =
        ?a @ map g (take ?n tensors)" by simp
    with m show ?thesis by (intro exI [of _ ?n]) simp
  next
    case (Inl e)
    with m have "allreduce env tensors opts s = (Inl e, s')" by simp
    from tripleD_Inl [OF t _ this]
    obtain pre post where p: "[0 ..< ?n] = pre @ post"
      "emitted allreduce_buffers (trace (snd s')) = ?a @ map ?f pre" by auto
    from prefix_of_upt [OF p(1)] have pre: "pre = [0 ..< length pre]" "length pre \<le> ?n"
      by simp_all
    have "map ?f pre = map ?f [0 ..< length pre]" using pre(1) by simp
    also have "\<dots> = map g (take (length pre) tensors)"
      using map_nth_take [of "length pre" tensors g] pre(2) by (simp add: g_def)
    finally have "emitted allreduce_buffers (trace (snd s')) =
        ?a @ map g (take (length pre) tensors)" using p(2) by simp
    with m pre(2) show ?thesis by (intro exI [of _ "length pre"]) simp
  qed
  show "emitted allreduce_buffers (trace (snd (snd (allreduce env tensors opts s)))) =
      ?a @ map g tensors" if "fst (allreduce env tensors opts s) = Inr work"
    using that m ok [of work] by simp
qed

text \<open>
  C10. \<open>allreduce\<close> first validates the tensors against themselves with the ratio 1:
  when that validation fails, \<open>allreduce\<close> fails with its error and changes nothing.
  Validated against itself with the ratio 1, a sequence can fail neither the check of
  the output element count nor the check of the output device. Whatever happens then,
  the all-reduce calls that \<open>allreduce\<close> issues are, in order, calls for the tensors of
  the sequence from its first on, each with the data pointer of its tensor as the source
  and as the destination and with the element count of its tensor; when \<open>allreduce\<close>
  returns a work, it has issued one such call for every tensor.
\<close>

theorem allreduce_in_place:
  "(tensorCheckHelper (m_numDevices (fst s)) tensors tensors 1 = Inl e \<longrightarrow>
      allreduce env tensors opts s = (Inl e, s))
   \<and> tensorCheckHelper nd tensors tensors 1 \<noteq> Inl err_output_numel
   \<and> tensorCheckHelper nd tensors tensors r \<noteq> Inl err_device_mismatch
   \<and> (\<exists>k \<le> length tensors.
        emitted allreduce_buffers (trace (snd (snd (allreduce env tensors opts s)))) =
        emitted allreduce_buffers (trace (snd s)) @
          map (\<lambda>t. (data_ptr t, data_ptr t, numel t)) (take k tensors))
   \<and> (fst (allreduce env tensors opts s) = Inr work \<longrightarrow>
        emitted allreduce_buffers (trace (snd (snd (allreduce env tensors opts s)))) =
        emitted allreduce_buffers (trace (snd s)) @
          map (\<lambda>t. (data_ptr t, data_ptr t, numel t)) tensors)"
  using allreduce_validation [of s tensors e env opts]
    tensorCheckHelper_in_place(1) [of nd tensors]
    tensorCheckHelper_in_place(2) [of nd tensors r]
    allreduce_emitted(1) [of tensors env opts s]
    allreduce_emitted(2) [of env tensors opts s work]
  by blast

lemma cuda_checked_ok: "cuda_checked env_ok c w = (Inr (), w\<lparr>trace := trace w @ [c]\<rparr>)"
  by (simp add: cuda_checked_eq env_ok_def)

lemma nccl_checked_ok: "nccl_checked env_ok c w = (Inr (), w\<lparr>trace := trace w @ [c]\<rparr>)"
  by (simp add: nccl_checked_eq env_ok_def)

lemma unique_id_ok: "unique_id env_ok t = replicate 128 7"
  by (simp add: env_ok_def)

lemma current_stream_ok: "current_stream env_ok t d = 0"
  by (simp add: env_ok_def)

lemma stoull_zero: "stoull (to_string 0) = Inr 0"
  by (simp add: stoull_to_string)

lemma to_ssize_t_zero: "to_ssize_t 0 = 0"
  by (simp add: to_ssize_t_def)

lemma key0: "getKeyFromDevices [0] = to_string 0"
  by (simp add: getKeyFromDevices_def)

lemma check0: "tensorCheckHelper 8 [cuda_tensor 0 4096] [cuda_tensor 0 4096] 1 = Inr ()"
  by (simp add: tensorCheckHelper_def cuda_tensor_def to_size_t_def)

lemma cuda_tensor_fields:
  "data_ptr (cuda_tensor d p) = p" "numel (cuda_tensor d p) = 4"
  "scalarType (cuda_tensor d p) = kFloat" "get_device (cuda_tensor d p) = d"
  by (simp_all add: cuda_tensor_def)

lemmas exec_defs = bindM_def returnM_def throwM_def liftE_def liftW_def vec_at_def
  setDevice_def CUDAEvent_create_def CUDAStream_create_def NCCLComm_create_def
  THCState_getCurrentStreamOnDevice_def getUniqueId_def Store_set_def Store_get_def
  cuda_checked_ok nccl_checked_ok unique_id_ok current_stream_ok

text \<open>The methods, run where every call into the libraries succeeds.\<close>

lemmas model_defs = allreduce_def broadcast_def collective_prologue_def getNCCLComm_def
  getNCCLComm_create_def broadcastUniqueNCCLID_def allreduce_calls_def broadcast_calls_def
  record_events_def syncStreams_def WorkNCCL_ctor_def devNCCLCommMap_at_def
  ncclStreams_at_def ncclEvents_at_def emplace_def counter_at_def getDevicesOfTensors_def
  getNcclDataType_def default_outputOverInput_def NCCL_UNIQUE_ID_BYTES_def
  ProcessGroupNCCL_ctor_def initial_world_def Let_def

lemma allreduce_example:
  "fst (allreduce env_ok [cuda_tensor 0 4096] \<lparr>reduceOp = ReduceOp_SUM\<rparr>
     (ProcessGroupNCCL_ctor 0 0 2 8 initial_world)) =
   Inr \<lparr>m_devices = [0], m_cudaEvents = [12]\<rparr>"
  by (simp add: model_defs exec_defs stoull_zero to_ssize_t_zero key0 check0
      to_string_nonempty cuda_tensor_fields)

theorem allreduce_in_place_witness:
  "fst (allreduce env_ok [cuda_tensor 0 4096] \<lparr>reduceOp = ReduceOp_SUM\<rparr>
     (ProcessGroupNCCL_ctor 0 0 2 8 initial_world)) =
     Inr \<lparr>m_devices = [0], m_cudaEvents = [12]\<rparr>
   \<and> emitted allreduce_buffers (trace (snd (snd
       (allreduce env_ok [cuda_tensor 0 4096] \<lparr>reduceOp = ReduceOp_SUM\<rparr>
          (ProcessGroupNCCL_ctor 0 0 2 8 initial_world))))) = [(4096, 4096, 4)]"
proof -
  let ?s = "ProcessGroupNCCL_ctor 0 0 2 8 initial_world"
  let ?r = "allreduce env_ok [cuda_tensor 0 4096] \<lparr>reduceOp = ReduceOp_SUM\<rparr> ?s"
  have t: "trace (snd ?s) = []"
    by (simp add: ProcessGroupNCCL_ctor_def initial_world_def)
  have "emitted allreduce_buffers (trace (snd (snd ?r))) =
      emitted allreduce_buffers (trace (snd ?s)) @
        map (\<lambda>t. (data_ptr t, data_ptr t, numel t)) [cuda_tensor 0 4096]"
    using allreduce_in_place [of ?s "[cuda_tensor 0 4096]" undefined env_ok
        "\<lparr>reduceOp = ReduceOp_SUM\<rparr>" 8 1 "\<lparr>m_devices = [0], m_cudaEvents = [12]\<rparr>"]
      allreduce_example
    by blast
  then have "emitted allreduce_buffers (trace (snd (snd ?r))) = [(4096, 4096, 4)]"
    by (simp add: t emitted_Nil cuda_tensor_fields)
  with allreduce_example show ?thesis by simp
qed

section \<open>Properties of the participant numbers\<close>

lemma mod_2_64_mod_2_32: "(x :: int) mod 2 ^ 64 mod 2 ^ 32 = x mod 2 ^ 32"
  by (rule mod_mod_cancel) (simp add: le_imp_power_dvd)

lemma to_int_cong: "(x :: int) mod 2 ^ 32 = y mod 2 ^ 32 \<Longrightarrow> to_int x = to_int y"
proof -
  assume "x mod 2 ^ 32 = y mod 2 ^ 32"
  then have "(x + 2 ^ 31) mod 2 ^ 32 = (y + 2 ^ 31) mod 2 ^ 32"
    by (metis mod_add_left_eq)
  then show ?thesis by (simp add: to_int_def)
qed

lemma to_int_id: "- (2 ^ 31) \<le> v \<Longrightarrow> v < 2 ^ 31 \<Longrightarrow> to_int v = v"
  by (simp add: to_int_def)

lemma getNCCLComm_numRanks_mod: "getNCCLComm_numRanks s n = to_int (s * int n)"
proof -
  have "(s mod 2 ^ 64 * int n) mod 2 ^ 64 mod 2 ^ 32 = (s * int n) mod 2 ^ 32"
    by (metis mod_2_64_mod_2_32 mod_mult_left_eq)
  then show ?thesis
    unfolding getNCCLComm_numRanks_def size_t_mul_def to_size_t_def by (rule to_int_cong)
qed

lemma getNCCLComm_rank_mod: "getNCCLComm_rank r n i = to_int (r * int n + int i)"
proof -
  have "((r mod 2 ^ 64 * int n) mod 2 ^ 64 + int i) mod 2 ^ 64 mod 2 ^ 32 =
      (r * int n + int i) mod 2 ^ 32"
    by (metis mod_2_64_mod_2_32 mod_mult_left_eq mod_add_left_eq)
  then show ?thesis
    unfolding getNCCLComm_rank_def size_t_add_def size_t_mul_def to_size_t_def
    by (rule to_int_cong)
qed

lemma broadcast_root_mod: "broadcast_root rr n rt = to_int (rr * int n + rt)"
proof -
  have "((rr mod 2 ^ 64 * int n) mod 2 ^ 64 + rt mod 2 ^ 64) mod 2 ^ 64 mod 2 ^ 32 =
      (rr * int n + rt) mod 2 ^ 32"
    by (metis mod_2_64_mod_2_32 mod_mult_left_eq mod_add_eq)
  then show ?thesis
    unfolding broadcast_root_def size_t_add_def size_t_mul_def to_size_t_def
    by (rule to_int_cong)
qed

lemma triple_mapM_steps:
  assumes "\<And>pre x post. xs = pre @ x # post \<Longrightarrow>
      triple (I pre) (f x) (\<lambda>_. I (pre @ [x])) (\<lambda>s. I pre s \<or> I (pre @ [x]) s)"
  shows "triple (I []) (mapM f xs) (\<lambda>_. I xs) (\<lambda>s. \<exists>pre post. xs = pre @ post \<and> I pre s)"
proof -
  have "triple (I done) (mapM f rest) (\<lambda>_. I (done @ rest))
      (\<lambda>s. \<exists>pre post. done @ rest = pre @ post \<and> I pre s)"
    if "xs = done @ rest" for "done" rest
    using that
  proof (induction rest arbitrary: "done")
    case Nil
    show ?case by (simp add: triple_returnM)
  next
    case (Cons x rest)
    let ?E = "\<lambda>s. \<exists>pre post. done @ x # rest = pre @ post \<and> I pre s"
    have body: "triple (I done) (f x) (\<lambda>_. I (done @ [x]))
        (\<lambda>s. I done s \<or> I (done @ [x]) s)"
      using Cons.prems by (rule assms)
    have rest: "triple (I (done @ [x])) (mapM f rest) (\<lambda>_. I ((done @ [x]) @ rest))
      (\<lambda>s. \<exists>pre post. (done @ [x]) @ rest = pre @ post \<and> I pre s)"
      using Cons.prems by (intro Cons.IH) simp
    show ?case
      unfolding mapM.simps
    proof (rule triple_bindM [where R = "\<lambda>_. I (done @ [x])"])
      show "triple (I done) (f x) (\<lambda>_. I (done @ [x])) ?E"
      proof (rule triple_conseq [OF body])
        fix s assume "I done s \<or> I (done @ [x]) s"
        then show "\<exists>pre post. done @ x # rest = pre @ post \<and> I pre s"
        proof
          assume "I done s"
          then show ?thesis by blast
        next
          assume "I (done @ [x]) s"
          moreover have "done @ x # rest = (done @ [x]) @ rest" by simp
          ultimately show ?thesis by blast
        qed
      qed simp_all
      fix y
      show "triple (I (done @ [x])) (bindM (mapM f rest) (\<lambda>ys. returnM (y # ys)))
          (\<lambda>_. I (done @ x # rest)) ?E"
      proof (rule triple_bindM [where R = "\<lambda>_. I (done @ x # rest)"])
        show "triple (I (done @ [x])) (mapM f rest) (\<lambda>_. I (done @ x # rest)) ?E"
          using rest by simp
        show "triple (I (done @ x # rest)) (returnM (y # ys)) (\<lambda>_. I (done @ x # rest)) ?E"
          for ys
          by (rule triple_returnM)
      qed
    qed
  qed
  from this [of "[]" xs] show ?thesis by simp
qed

lemma comm_init_ranks_plain: "plain_call c \<Longrightarrow> comm_init_ranks c = None"
  by (cases c) simp_all

lemma bcast_root_of_plain: "plain_call c \<Longrightarrow> bcast_root_of c = None"
  by (cases c) simp_all

lemma triple_emit_NCCLComm_create:
  "triple (\<lambda>w. emitted comm_init_ranks (trace w) = a) (NCCLComm_create env numRanks rank ncclID)
     (\<lambda>_ w. emitted comm_init_ranks (trace w) = a @ [(numRanks, rank)])
     (\<lambda>w. emitted comm_init_ranks (trace w) = a @ [(numRanks, rank)])"
  by (rule tripleI)
    (auto simp: NCCLComm_create_def nccl_checked_eq bindM_def returnM_def emitted_snoc_Some
      split: if_splits)

lemma getNCCLComm_create_loop_triple:
  fixes a :: "(int \<times> int) list" and nr :: int and rk :: "nat \<Rightarrow> int"
  defines "I \<equiv> (\<lambda>pre w. emitted comm_init_ranks (trace w) = a @ map (\<lambda>i. (nr, rk i)) pre)"
  shows "triple (I [])
     (mapM (\<lambda>i.
       bindM (setDevice env (devices ! i)) (\<lambda>_.
       bindM (NCCLComm_create env nr (rk i) ncclID) (\<lambda>comm.
       bindM (CUDAStream_create env) (\<lambda>stream.
       bindM (CUDAEvent_create env) (\<lambda>event.
       returnM (comm, stream, event))))))
       [0 ..< n])
     (\<lambda>_. I [0 ..< n])
     (\<lambda>w. \<exists>pre post. [0 ..< n] = pre @ post \<and> I pre w)"
proof (rule triple_mapM_steps)
  fix pre i post
  let ?b = "a @ map (\<lambda>i. (nr, rk i)) pre"
  let ?x = "(nr, rk i)"
  have I_pre: "I pre = (\<lambda>w. emitted comm_init_ranks (trace w) = ?b)"
    by (simp add: I_def)
  have I_next: "I (pre @ [i]) = (\<lambda>w. emitted comm_init_ranks (trace w) = ?b @ [?x])"
    by (simp add: I_def)
  show "triple (I pre)
     (bindM (setDevice env (devices ! i)) (\<lambda>_.
       bindM (NCCLComm_create env nr (rk i) ncclID) (\<lambda>comm.
       bindM (CUDAStream_create env) (\<lambda>stream.
       bindM (CUDAEvent_create env) (\<lambda>event.
       returnM (comm, stream, event))))))
     (\<lambda>_. I (pre @ [i])) (\<lambda>w. I pre w \<or> I (pre @ [i]) w)"
    unfolding I_pre I_next
  proof (rule triple_quiet_bindM)
    show "quiet_on trace comm_init_ranks (setDevice env (devices ! i))"
      by (rule quiet_setDevice) (rule comm_init_ranks_plain)
    fix u :: unit
    show "triple (\<lambda>w. emitted comm_init_ranks (trace w) = ?b)
       (bindM (NCCLComm_create env nr (rk i) ncclID) (\<lambda>comm.
        bindM (CUDAStream_create env) (\<lambda>stream.
        bindM (CUDAEvent_create env) (\<lambda>event.
        returnM (comm, stream, event)))))
       (\<lambda>_ w. emitted comm_init_ranks (trace w) = ?b @ [?x])
       (\<lambda>w. emitted comm_init_ranks (trace w) = ?b \<or>
            emitted comm_init_ranks (trace w) = ?b @ [?x])"
    proof (rule triple_bindM [where R = "\<lambda>_ w. emitted comm_init_ranks (trace w) = ?b @ [?x]"])
      show "triple (\<lambda>w. emitted comm_init_ranks (trace w) = ?b)
         (NCCLComm_create env nr (rk i) ncclID)
         (\<lambda>_ w. emitted comm_init_ranks (trace w) = ?b @ [?x])
         (\<lambda>w. emitted comm_init_ranks (trace w) = ?b \<or>
              emitted comm_init_ranks (trace w) = ?b @ [?x])"
        by (rule triple_conseq [OF triple_emit_NCCLComm_create [where a = ?b]])
          (assumption, assumption, erule disjI2)
      fix comm
      have q: "quiet_on trace comm_init_ranks
         (bindM (CUDAStream_create env) (\<lambda>stream.
          bindM (CUDAEvent_create env) (\<lambda>event.
          returnM (comm, stream, event))))"
        by (intro quiet_intros) (simp_all add: comm_init_ranks_plain)
      show "triple (\<lambda>w. emitted comm_init_ranks (trace w) = ?b @ [?x])
         (bindM (CUDAStream_create env) (\<lambda>stream.
          bindM (CUDAEvent_create env) (\<lambda>event.
          returnM (comm, stream, event))))
         (\<lambda>_ w. emitted comm_init_ranks (trace w) = ?b @ [?x])
         (\<lambda>w. emitted comm_init_ranks (trace w) = ?b \<or>
              emitted comm_init_ranks (trace w) = ?b @ [?x])"
        by (rule triple_quiet [OF q]) (assumption, erule disjI2)
    qed
  qed (erule disjI1)
qed


lemma getNCCLComm_create_triple:
  fixes a :: "(int \<times> int) list" and devices :: "int list" and pg :: ProcessGroupNCCL
  defines "I \<equiv> (\<lambda>pre (s :: ProcessGroupNCCL \<times> world).
      emitted comm_init_ranks (trace (snd s)) =
      a @ map (\<lambda>i. (getNCCLComm_numRanks (m_size pg) (length devices),
                     getNCCLComm_rank (m_rank pg) (length devices) i)) pre)"
  defines "E \<equiv> (\<lambda>s. \<exists>pre post. [0 ..< length devices] = pre @ post \<and> I pre s)"
  shows "triple (I []) (getNCCLComm_create env pg key devices)
     (\<lambda>_. I [0 ..< length devices]) E"
proof -
  let ?f = "\<lambda>i. (getNCCLComm_numRanks (m_size pg) (length devices),
                 getNCCLComm_rank (m_rank pg) (length devices) i)"
  let ?n = "length devices"
  have I_Nil: "I [] = (\<lambda>s. emitted comm_init_ranks (trace (snd s)) = a)"
    by (simp add: I_def)
  have I_all: "I [0 ..< ?n] =
      (\<lambda>s. emitted comm_init_ranks (trace (snd s)) = a @ map ?f [0 ..< ?n])"
    by (simp add: I_def)
  have E0: "E t" if "emitted comm_init_ranks (trace (snd t)) = a" for t
  proof -
    from that have "I [] t" by (simp add: I_Nil)
    moreover have "[0 ..< ?n] = [] @ [0 ..< ?n]" by simp
    ultimately show ?thesis unfolding E_def by blast
  qed
  have E1: "E t" if "emitted comm_init_ranks (trace (snd t)) = a @ map ?f [0 ..< ?n]" for t
  proof -
    from that have "I [0 ..< ?n] t" by (simp add: I_all)
    moreover have "[0 ..< ?n] = [0 ..< ?n] @ []" by simp
    ultimately show ?thesis unfolding E_def by blast
  qed
  have loop: "triple (\<lambda>s. emitted comm_init_ranks (trace (snd s)) = a)
     (liftW (mapM (\<lambda>i.
       bindM (setDevice env (devices ! i)) (\<lambda>_.
       bindM (NCCLComm_create env
                (getNCCLComm_numRanks (m_size pg) (length devices))
                (getNCCLComm_rank (m_rank pg) (length devices) i) ncclID) (\<lambda>comm.
       bindM (CUDAStream_create env) (\<lambda>stream.
       bindM (CUDAEvent_create env) (\<lambda>event.
       returnM (comm, stream, event))))))
       [0 ..< length devices]))
     (\<lambda>_. I [0 ..< ?n]) E" for ncclID
    unfolding I_def E_def
    by (rule triple_liftW, simp,
        rule getNCCLComm_create_loop_triple [where a = a and n = "length devices"
          and nr = "getNCCLComm_numRanks (m_size pg) (length devices)"
          and rk = "getNCCLComm_rank (m_rank pg) (length devices)", simplified])
  have q_end: "quiet_on (\<lambda>s. trace (snd s)) comm_init_ranks
      (liftW (nccl_checked env ncclGroupEnd))"
    by (auto intro!: quiet_intros simp: comm_init_ranks_plain)
  have q_upd: "quiet_on (\<lambda>s. trace (snd s)) comm_init_ranks (\<lambda>t. (Inr (),
       ((fst t)\<lparr>m_devNCCLCommMap :=
                   emplace (m_devNCCLCommMap (fst t)) key (map fst created),
                 m_ncclStreams :=
                   emplace (m_ncclStreams (fst t)) key (map (fst \<circ> snd) created),
                 m_ncclEvents :=
                   emplace (m_ncclEvents (fst t)) key (map (snd \<circ> snd) created)\<rparr>,
        snd t)))" for created :: "(ncclComm_t \<times> cudaStream_t \<times> cudaEvent_t) list"
    by (rule quiet_on_same) simp
  have tail: "triple (I [0 ..< ?n])
     (bindM (liftW (nccl_checked env ncclGroupEnd)) (\<lambda>_.
      bindM (\<lambda>t. (Inr (),
       ((fst t)\<lparr>m_devNCCLCommMap :=
                   emplace (m_devNCCLCommMap (fst t)) key (map fst created),
                 m_ncclStreams :=
                   emplace (m_ncclStreams (fst t)) key (map (fst \<circ> snd) created),
                 m_ncclEvents :=
                   emplace (m_ncclEvents (fst t)) key (map (snd \<circ> snd) created)\<rparr>,
        snd t))) (\<lambda>_.
      devNCCLCommMap_at key)))
     (\<lambda>_. I [0 ..< ?n]) E" for created :: "(ncclComm_t \<times> cudaStream_t \<times> cudaEvent_t) list"
    unfolding I_all
    by (rule triple_quiet)
      (intro quiet_bindM q_end q_upd quiet_devNCCLCommMap_at, assumption, erule E1)
  have q1: "quiet_on (\<lambda>s. trace (snd s)) comm_init_ranks
      (liftW (if m_rank pg = 0 then getUniqueId env
              else returnM (replicate NCCL_UNIQUE_ID_BYTES 0)))"
    by (auto intro!: quiet_intros simp: comm_init_ranks_plain)
  have q2: "quiet_on (\<lambda>s. trace (snd s)) comm_init_ranks
      (liftW (broadcastUniqueNCCLID pg ncclID0))" for ncclID0
    by (intro quiet_liftW quiet_broadcastUniqueNCCLID) (rule comm_init_ranks_plain)
  have q3: "quiet_on (\<lambda>s. trace (snd s)) comm_init_ranks
      (liftW (nccl_checked env ncclGroupStart))"
    by (auto intro!: quiet_intros simp: comm_init_ranks_plain)
  show ?thesis
    unfolding getNCCLComm_create_def I_Nil
    apply (rule triple_quiet_bindM, rule q1)
     apply (rule triple_quiet_bindM, rule q2)
      apply (rule triple_quiet_bindM, rule q3)
       apply (rule triple_bindM [OF loop], rule tail)
      apply (erule E0)+
    done
qed


lemma getNCCLComm_miss:
  "key \<noteq> [] \<Longrightarrow> key \<notin> dom (m_devNCCLCommMap (fst s)) \<Longrightarrow>
   getNCCLComm env key devices s = getNCCLComm_create env (fst s) key devices s"
  by (simp add: getNCCLComm_def)

lemma getNCCLComm_emitted:
  fixes devices :: "int list" and s :: "ProcessGroupNCCL \<times> world"
  defines "f \<equiv> (\<lambda>i. (getNCCLComm_numRanks (m_size (fst s)) (length devices),
                      getNCCLComm_rank (m_rank (fst s)) (length devices) i))"
  assumes miss: "key \<noteq> []" "key \<notin> dom (m_devNCCLCommMap (fst s))"
  shows "\<exists>k \<le> length devices.
      emitted comm_init_ranks (trace (snd (snd (getNCCLComm env key devices s)))) =
      emitted comm_init_ranks (trace (snd s)) @ map f [0 ..< k]"
    and "fst (getNCCLComm env key devices s) = Inr comms \<Longrightarrow>
      emitted comm_init_ranks (trace (snd (snd (getNCCLComm env key devices s)))) =
      emitted comm_init_ranks (trace (snd s)) @ map f [0 ..< length devices]"
proof -
  let ?a = "emitted comm_init_ranks (trace (snd s))"
  let ?n = "length devices"
  let ?m = "getNCCLComm_create env (fst s) key devices"
  note t = getNCCLComm_create_triple [where a = ?a and devices = devices and pg = "fst s"
      and env = env and key = key, folded f_def]
  have eq: "getNCCLComm env key devices s = ?m s"
    using miss by (rule getNCCLComm_miss)
  obtain r s' where m: "?m s = (r, s')" by (cases "?m s")
  have ok: "emitted comm_init_ranks (trace (snd s')) = ?a @ map f [0 ..< ?n]" if "r = Inr x" for x
  proof -
    from m that have "?m s = (Inr x, s')" by simp
    from tripleD_Inr [OF t _ this] show ?thesis by simp
  qed
  show "\<exists>k \<le> ?n. emitted comm_init_ranks (trace (snd (snd (getNCCLComm env key devices s)))) =
      ?a @ map f [0 ..< k]"
  proof (cases r)
    case (Inr x)
    from ok [OF Inr] m eq show ?thesis by (intro exI [of _ ?n]) simp
  next
    case (Inl e)
    with m have "?m s = (Inl e, s')" by simp
    from tripleD_Inl [OF t _ this]
    obtain pre post where p: "[0 ..< ?n] = pre @ post"
      "emitted comm_init_ranks (trace (snd s')) = ?a @ map f pre" by auto
    from prefix_of_upt [OF p(1)] have pre: "pre = [0 ..< length pre]" "length pre \<le> ?n"
      by simp_all
    have "map f pre = map f [0 ..< length pre]" using pre(1) by simp
    with p(2) have "emitted comm_init_ranks (trace (snd s')) = ?a @ map f [0 ..< length pre]"
      by simp
    with m eq pre(2) show ?thesis by (intro exI [of _ "length pre"]) simp
  qed
  show "emitted comm_init_ranks (trace (snd (snd (getNCCLComm env key devices s)))) =
      ?a @ map f [0 ..< ?n]" if "fst (getNCCLComm env key devices s) = Inr comms"
    using that m eq ok [of comms] by simp
qed

lemma broadcast_calls_triple:
  fixes a :: "int list" and tensors :: "Tensor list" and opts :: BroadcastOptions
  defines "I \<equiv> (\<lambda>pre s. emitted bcast_root_of (trace (snd s)) =
      a @ map (\<lambda>i :: nat. broadcast_root (rootRank opts) (length tensors) (rootTensor opts)) pre)"
  shows "triple (I [])
     (broadcast_calls env tensors opts devices key ncclComms)
     (\<lambda>_. I [0 ..< length tensors])
     (\<lambda>s. \<exists>pre post. [0 ..< length tensors] = pre @ post \<and> I pre s)"
  unfolding broadcast_calls_def
proof (rule triple_forM_steps)
  fix pre :: "nat list" and i :: nat and post :: "nat list"
  let ?x = "broadcast_root (rootRank opts) (length tensors) (rootTensor opts)"
  let ?b = "a @ map (\<lambda>i :: nat. ?x) pre"
  have I_pre: "I pre = (\<lambda>s. emitted bcast_root_of (trace (snd s)) = ?b)"
    by (simp add: I_def)
  have I_next: "I (pre @ [i]) = (\<lambda>s. emitted bcast_root_of (trace (snd s)) = ?b @ [?x])"
    by (simp add: I_def)
  show "triple (I pre)
     (bindM (liftW (setDevice env (devices ! i))) (\<lambda>_.
       bindM (ncclStreams_at key) (\<lambda>streams.
       bindM (vec_at streams i) (\<lambda>ncclStream.
       bindM (liftE (getNcclDataType (scalarType (tensors ! i)))) (\<lambda>dataType.
       bindM (vec_at ncclComms i) (\<lambda>comm.
       liftW (nccl_checked env
         (ncclBcast (data_ptr (tensors ! i)) (numel (tensors ! i)) dataType
            (broadcast_root (rootRank opts) (length tensors) (rootTensor opts))
            comm ncclStream))))))))
     (\<lambda>_. I (pre @ [i])) (\<lambda>s. I pre s \<or> I (pre @ [i]) s)"
    unfolding I_pre I_next
  proof (intro triple_quiet_bindM)
    fix u streams ncclStream dataType comm
    show "triple (\<lambda>s. emitted bcast_root_of (trace (snd s)) = ?b)
       (liftW (nccl_checked env
         (ncclBcast (data_ptr (tensors ! i)) (numel (tensors ! i)) dataType
            (broadcast_root (rootRank opts) (length tensors) (rootTensor opts))
            comm ncclStream)))
       (\<lambda>_ s. emitted bcast_root_of (trace (snd s)) = ?b @ [?x])
       (\<lambda>s. emitted bcast_root_of (trace (snd s)) = ?b \<or>
            emitted bcast_root_of (trace (snd s)) = ?b @ [?x])"
    proof (rule triple_conseq [OF triple_emit_nccl [where x = ?x and a = ?b]])
      show "bcast_root_of
         (ncclBcast (data_ptr (tensors ! i)) (numel (tensors ! i)) dataType
            (broadcast_root (rootRank opts) (length tensors) (rootTensor opts))
            comm ncclStream) = Some ?x"
        by simp
    qed (assumption, assumption, erule disjI2)
  qed (auto intro!: quiet_intros quiet_ncclStreams_at simp: bcast_root_of_plain)
qed

lemma broadcast_triple:
  fixes a :: "int list" and tensors :: "Tensor list" and opts :: BroadcastOptions
  defines "I \<equiv> (\<lambda>pre s. emitted bcast_root_of (trace (snd s)) =
      a @ map (\<lambda>i :: nat. broadcast_root (rootRank opts) (length tensors) (rootTensor opts)) pre)"
  shows "triple (I []) (broadcast env tensors opts) (\<lambda>_. I [0 ..< length tensors])
     (\<lambda>s. \<exists>pre post. [0 ..< length tensors] = pre @ post \<and> I pre s)"
proof (rule triple_cases)
  fix s :: "ProcessGroupNCCL \<times> world"
  let ?E = "\<lambda>s. \<exists>pre post. [0 ..< length tensors] = pre @ post \<and> I pre s"
  let ?m = "bindM (liftE (tensorCheckHelper (m_numDevices (fst s)) tensors tensors
                     default_outputOverInput)) (\<lambda>_.
     bindM (collective_prologue env tensors) (\<lambda>(devices, key, ncclComms, work).
     bindM (liftW (nccl_checked env ncclGroupStart)) (\<lambda>_.
     bindM (broadcast_calls env tensors opts devices key ncclComms) (\<lambda>_.
     bindM (liftW (nccl_checked env ncclGroupEnd)) (\<lambda>_.
     bindM (record_events env tensors key work) (\<lambda>_.
     returnM work))))))"
  have "triple (I []) ?m (\<lambda>_. I [0 ..< length tensors]) ?E"
    unfolding I_def
    by (rule collective_triple, erule bcast_root_of_plain, simp,
        rule broadcast_calls_triple)
  moreover have "broadcast env tensors opts s = ?m s"
    by (simp add: broadcast_def)
  ultimately show "\<exists>m'. triple (I []) m' (\<lambda>_. I [0 ..< length tensors]) ?E \<and>
      broadcast env tensors opts s = m' s" by blast
qed

lemma broadcast_emitted:
  fixes tensors :: "Tensor list" and opts :: BroadcastOptions
  defines "root \<equiv> broadcast_root (rootRank opts) (length tensors) (rootTensor opts)"
  shows "\<exists>k \<le> length tensors.
      emitted bcast_root_of (trace (snd (snd (broadcast env tensors opts s)))) =
      emitted bcast_root_of (trace (snd s)) @ replicate k root"
    and "fst (broadcast env tensors opts s) = Inr work \<Longrightarrow>
      emitted bcast_root_of (trace (snd (snd (broadcast env tensors opts s)))) =
      emitted bcast_root_of (trace (snd s)) @ replicate (length tensors) root"
proof -
  let ?a = "emitted bcast_root_of (trace (snd s))"
  let ?n = "length tensors"
  note t = broadcast_triple [where a = ?a and tensors = tensors and env = env and opts = opts,
      folded root_def]
  have rep: "map (\<lambda>i :: nat. root) xs = replicate (length xs) root" for xs
    by (simp add: map_replicate_const)
  obtain r s' where m: "broadcast env tensors opts s = (r, s')"
    by (cases "broadcast env tensors opts s")
  have ok: "emitted bcast_root_of (trace (snd s')) = ?a @ replicate ?n root" if "r = Inr x" for x
  proof -
    from m that have "broadcast env tensors opts s = (Inr x, s')" by simp
    from tripleD_Inr [OF t _ this] show ?thesis by (simp add: rep)
  qed
  show "\<exists>k \<le> ?n. emitted bcast_root_of (trace (snd (snd (broadcast env tensors opts s)))) =
      ?a @ replicate k root"
  proof (cases r)
    case (Inr x)
    from ok [OF Inr] m show ?thesis by (intro exI [of _ ?n]) simp
  next
    case (Inl e)
    with m have "broadcast env tensors opts s = (Inl e, s')" by simp
    from tripleD_Inl [OF t _ this]
    obtain pre post where p: "[0 ..< ?n] = pre @ post"
      "emitted bcast_root_of (trace (snd s')) = ?a @ map (\<lambda>i :: nat. root) pre" by auto
    from arg_cong [OF p(1), of length] have "length pre \<le> ?n" by simp
    with m p(2) show ?thesis by (intro exI [of _ "length pre"]) (simp add: rep)
  qed
  show "emitted bcast_root_of (trace (snd (snd (broadcast env tensors opts s)))) =
      ?a @ replicate ?n root" if "fst (broadcast env tensors opts s) = Inr work"
    using that m ok [of work] by simp
qed


lemma getNCCLComm_example:
  "fst (getNCCLComm env_ok (to_string 0) [0] (ProcessGroupNCCL_ctor 0 0 2 8 initial_world)) =
   Inr [4]"
  by (simp add: model_defs exec_defs stoull_zero to_ssize_t_zero to_string_nonempty)

lemma broadcast_example:
  "fst (broadcast env_ok [cuda_tensor 0 4096] \<lparr>rootRank = 1, rootTensor = 0\<rparr>
     (ProcessGroupNCCL_ctor 0 0 2 8 initial_world)) =
   Inr \<lparr>m_devices = [0], m_cudaEvents = [12]\<rparr>"
  by (simp add: model_defs exec_defs stoull_zero to_ssize_t_zero key0 check0
      to_string_nonempty cuda_tensor_fields)

lemma getNCCLComm_overflow_example:
  "emitted comm_init_ranks (trace (snd (snd
     (getNCCLComm env_ok ''0,1'' [0, 1] (ProcessGroupNCCL_ctor 0 0 (2 ^ 30) 8 initial_world))))) =
   [(- (2 ^ 31), 0), (- (2 ^ 31), 1)]"
  by (simp add: model_defs exec_defs stoull_zero to_ssize_t_zero emitted_def map_filter_def
      getNCCLComm_numRanks_mod getNCCLComm_rank_mod to_int_def)


text \<open>
  C7. The source computes the participant count, the participant rank and the root of a
  broadcast in \<^verbatim>\<open>size_t\<close> and stores each in an \<^verbatim>\<open>int\<close>. Where the number that the
  formula gives is one that an \<^verbatim>\<open>int\<close> of 32 bits holds, the count is the size of the
  group times the number of devices, the rank of the device at index \<open>i\<close> is the rank
  of the caller times the number of devices plus \<open>i\<close>, and the root is the root rank
  times the number of tensors plus the index of the root tensor. On a cache miss
  \<open>getNCCLComm\<close> creates communicators for the devices from the first on, in order, each
  with that count and with the rank of its index, and one for every device when it
  returns. Every broadcast call that \<open>broadcast\<close> issues has that root, and \<open>broadcast\<close>
  issues one call for every tensor when it returns a work.
\<close>

theorem participant_numbering:
  "(- (2 ^ 31) \<le> sz * int n \<and> sz * int n < 2 ^ 31 \<longrightarrow>
      getNCCLComm_numRanks sz n = sz * int n)
   \<and> (- (2 ^ 31) \<le> r * int n + int i \<and> r * int n + int i < 2 ^ 31 \<longrightarrow>
      getNCCLComm_rank r n i = r * int n + int i)
   \<and> (- (2 ^ 31) \<le> rr * int n + rt \<and> rr * int n + rt < 2 ^ 31 \<longrightarrow>
      broadcast_root rr n rt = rr * int n + rt)
   \<and> (devicesKey \<noteq> [] \<and> devicesKey \<notin> dom (m_devNCCLCommMap (fst s)) \<longrightarrow>
      (\<exists>k \<le> length devices.
         emitted comm_init_ranks (trace (snd (snd (getNCCLComm env devicesKey devices s)))) =
         emitted comm_init_ranks (trace (snd s)) @
           map (\<lambda>i. (getNCCLComm_numRanks (m_size (fst s)) (length devices),
                      getNCCLComm_rank (m_rank (fst s)) (length devices) i)) [0 ..< k])
      \<and> (fst (getNCCLComm env devicesKey devices s) = Inr comms \<longrightarrow>
         emitted comm_init_ranks (trace (snd (snd (getNCCLComm env devicesKey devices s)))) =
         emitted comm_init_ranks (trace (snd s)) @
           map (\<lambda>i. (getNCCLComm_numRanks (m_size (fst s)) (length devices),
                      getNCCLComm_rank (m_rank (fst s)) (length devices) i))
             [0 ..< length devices]))
   \<and> (\<exists>k \<le> length tensors.
        emitted bcast_root_of (trace (snd (snd (broadcast env tensors opts s)))) =
        emitted bcast_root_of (trace (snd s)) @
          replicate k (broadcast_root (rootRank opts) (length tensors) (rootTensor opts)))
   \<and> (fst (broadcast env tensors opts s) = Inr work \<longrightarrow>
        emitted bcast_root_of (trace (snd (snd (broadcast env tensors opts s)))) =
        emitted bcast_root_of (trace (snd s)) @
          replicate (length tensors)
            (broadcast_root (rootRank opts) (length tensors) (rootTensor opts)))"
  using to_int_id [of "sz * int n"] to_int_id [of "r * int n + int i"]
    to_int_id [of "rr * int n + rt"]
    getNCCLComm_emitted(1) [of devicesKey s devices env]
    getNCCLComm_emitted(2) [of devicesKey s env devices comms]
    broadcast_emitted(1) [of tensors env opts s]
    broadcast_emitted(2) [of env tensors opts s work]
  unfolding getNCCLComm_numRanks_mod getNCCLComm_rank_mod broadcast_root_mod
  by blast

theorem participant_numbering_witness:
  "getNCCLComm_numRanks 2 1 = 2 \<and> getNCCLComm_rank 1 1 0 = 1 \<and> broadcast_root 1 1 0 = 1
   \<and> emitted comm_init_ranks (trace (snd (snd
       (getNCCLComm env_ok (to_string 0) [0]
          (ProcessGroupNCCL_ctor 0 0 2 8 initial_world))))) = [(2, 0)]
   \<and> emitted bcast_root_of (trace (snd (snd
       (broadcast env_ok [cuda_tensor 0 4096] \<lparr>rootRank = 1, rootTensor = 0\<rparr>
          (ProcessGroupNCCL_ctor 0 0 2 8 initial_world))))) = [1]"
proof -
  let ?s = "ProcessGroupNCCL_ctor 0 0 2 8 initial_world"
  let ?opts = "\<lparr>rootRank = 1, rootTensor = 0\<rparr>"
  let ?ts = "[cuda_tensor 0 4096]"
  let ?w = "\<lparr>m_devices = [0], m_cudaEvents = [12]\<rparr>"
  note t = participant_numbering [of 2 1 1 0 1 0 "to_string 0" ?s "[0]" env_ok "[4]" ?ts ?opts ?w]
  have h: "- (2 ^ 31) \<le> (2::int) * int 1" "(2::int) * int 1 < 2 ^ 31"
    "- (2 ^ 31) \<le> (1::int) * int 1 + int 0" "(1::int) * int 1 + int 0 < 2 ^ 31"
    "- (2 ^ 31) \<le> (1::int) * int 1 + 0" "(1::int) * int 1 + 0 < 2 ^ 31"
    by simp_all
  have miss: "to_string 0 \<noteq> []" "to_string 0 \<notin> dom (m_devNCCLCommMap (fst ?s))"
    by (simp_all add: to_string_nonempty ProcessGroupNCCL_ctor_def)
  have st: "trace (snd ?s) = []" "m_size (fst ?s) = 2" "m_rank (fst ?s) = 0"
    by (simp_all add: ProcessGroupNCCL_ctor_def initial_world_def)
  have a: "getNCCLComm_numRanks 2 1 = 2 * int 1" "getNCCLComm_rank 1 1 0 = 1 * int 1 + int 0"
    "broadcast_root 1 1 0 = 1 * int 1 + 0"
    using t h by blast+
  have b: "emitted comm_init_ranks (trace (snd (snd (getNCCLComm env_ok (to_string 0) [0] ?s)))) =
      emitted comm_init_ranks (trace (snd ?s)) @
        map (\<lambda>i. (getNCCLComm_numRanks (m_size (fst ?s)) (length [0::int]),
                   getNCCLComm_rank (m_rank (fst ?s)) (length [0::int]) i))
          [0 ..< length [0::int]]"
    using t miss getNCCLComm_example by blast
  have c: "emitted bcast_root_of (trace (snd (snd (broadcast env_ok ?ts ?opts ?s)))) =
      emitted bcast_root_of (trace (snd ?s)) @
        replicate (length ?ts) (broadcast_root (rootRank ?opts) (length ?ts) (rootTensor ?opts))"
    using t broadcast_example by blast
  have d: "getNCCLComm_rank 0 (Suc 0) 0 = 0"
    by (simp add: getNCCLComm_rank_mod to_int_def)
  from a b c show ?thesis
    by (simp add: st emitted_Nil d)
qed

text \<open>
  C7 as the claim words it fails where the product does not fit an \<^verbatim>\<open>int\<close>: in a group
  of \<open>2 ^ 30\<close> ranks, a call for two devices creates its communicators with the count
  \<open>- 2 ^ 31\<close>, and the size of the group times the number of devices is \<open>2 ^ 31\<close>.
\<close>

theorem participant_count_counterexample:
  "emitted comm_init_ranks (trace (snd (snd
     (getNCCLComm env_ok ''0,1'' [0, 1] (ProcessGroupNCCL_ctor 0 0 (2 ^ 30) 8 initial_world))))) =
   [(- (2 ^ 31), 0), (- (2 ^ 31), 1)]
   \<and> m_size (fst (ProcessGroupNCCL_ctor 0 0 (2 ^ 30) 8 initial_world)) * int (length [0 :: int, 1]) =
     2 ^ 31"
  by (rule conjI, rule getNCCLComm_overflow_example) (simp add: ProcessGroupNCCL_ctor_def)

section \<open>Properties of the communicator cache\<close>

lemma keepsI: "(\<And>s. f (snd (m s)) = f s) \<Longrightarrow> keeps f m"
  by (simp add: keeps_def)

lemma keepsD: "keeps f m \<Longrightarrow> f (snd (m s)) = f s"
  by (simp add: keeps_def)

lemma keeps_returnM: "keeps f (returnM x)"
  by (simp add: keeps_def returnM_def)

lemma keeps_throwM: "keeps f (throwM e)"
  by (simp add: keeps_def throwM_def)

lemma keeps_liftE: "keeps f (liftE r)"
  by (simp add: keeps_def liftE_def)

lemma keeps_vec_at: "keeps f (vec_at v i)"
  by (simp add: keeps_def vec_at_def returnM_def throwM_def)

lemma keeps_bindM:
  assumes "keeps f m" "\<And>x. keeps f (g x)"
  shows "keeps f (bindM m g)"
proof (rule keepsI)
  fix s
  obtain r s1 where m: "m s = (r, s1)" by (cases "m s")
  from keepsD [OF assms(1), of s] m have s1: "f s1 = f s" by simp
  show "f (snd (bindM m g s)) = f s"
  proof (cases r)
    case (Inl e)
    with m s1 show ?thesis by (simp add: bindM_def)
  next
    case (Inr x)
    with m have "bindM m g s = g x s1" by (simp add: bindM_def)
    with keepsD [OF assms(2), of x s1] s1 show ?thesis by simp
  qed
qed

lemma keeps_forM: "(\<And>x. keeps f (g x)) \<Longrightarrow> keeps f (forM xs g)"
  by (induction xs) (simp_all add: keeps_returnM keeps_bindM)

lemma keeps_liftW: "keeps (\<lambda>s. h (fst s)) (liftW m)"
  by (rule keepsI) (simp add: liftW_def split: prod.splits)

lemma keeps_ncclStreams_at: "keeps (\<lambda>s. m_devNCCLCommMap (fst s)) (ncclStreams_at key)"
  by (rule keepsI) (simp add: ncclStreams_at_def split: option.splits)

lemma keeps_ncclEvents_at: "keeps (\<lambda>s. m_devNCCLCommMap (fst s)) (ncclEvents_at key)"
  by (rule keepsI) (simp add: ncclEvents_at_def split: option.splits)

lemmas keeps_intros = keeps_bindM keeps_forM keeps_returnM keeps_throwM keeps_liftE
  keeps_vec_at keeps_liftW keeps_ncclStreams_at keeps_ncclEvents_at

lemma keeps_record_events:
  "keeps (\<lambda>s. m_devNCCLCommMap (fst s)) (record_events env tensors key work)"
  unfolding record_events_def by (intro keeps_intros)

lemma keeps_allreduce_calls:
  "keeps (\<lambda>s. m_devNCCLCommMap (fst s)) (allreduce_calls env tensors opts devices key ncclComms)"
  unfolding allreduce_calls_def by (intro keeps_intros)

lemma keeps_broadcast_calls:
  "keeps (\<lambda>s. m_devNCCLCommMap (fst s)) (broadcast_calls env tensors bopts devices key ncclComms)"
  unfolding broadcast_calls_def by (intro keeps_intros)

lemma triple_keeps:
  "keeps f m \<Longrightarrow> triple (\<lambda>s. C (f s)) m (\<lambda>_ s. C (f s)) (\<lambda>s. C (f s))"
proof (rule tripleI)
  fix s e s' assume "keeps f m" "C (f s)" "m s = (Inl e, s')"
  then show "C (f s')" using keepsD [of f m s] by simp
next
  fix s x s' assume "keeps f m" "C (f s)" "m s = (Inr x, s')"
  then show "C (f s')" using keepsD [of f m s] by simp
qed

lemma triple_snd:
  assumes "triple P m (\<lambda>_. Q) Q" "P s"
  shows "Q (snd (m s))"
proof -
  obtain r s' where m: "m s = (r, s')" by (cases "m s")
  show ?thesis
  proof (cases r)
    case (Inl e)
    with m assms show ?thesis using tripleD_Inl [of P m "\<lambda>_. Q" Q s e s'] by simp
  next
    case (Inr x)
    with m assms show ?thesis using tripleD_Inr [of P m "\<lambda>_. Q" Q s x s'] by simp
  qed
qed

text \<open>What \<open>devNCCLCommMap_at\<close> returns is the entry of the cache afterwards.\<close>

lemma devNCCLCommMap_at_entry:
  "triple (\<lambda>_. True) (devNCCLCommMap_at key)
     (\<lambda>v s. m_devNCCLCommMap (fst s) key = Some v) (\<lambda>_. True)"
  by (rule tripleI) (auto simp: devNCCLCommMap_at_def split: option.splits)

lemma devNCCLCommMap_at_hit:
  "m_devNCCLCommMap (fst s) key = Some v \<Longrightarrow> devNCCLCommMap_at key s = (Inr v, s)"
  by (simp add: devNCCLCommMap_at_def)

lemma devNCCLCommMap_at_keys:
  "key \<noteq> [] \<Longrightarrow>
   triple (\<lambda>s. [] \<notin> dom (m_devNCCLCommMap (fst s))) (devNCCLCommMap_at key)
     (\<lambda>_ s. [] \<notin> dom (m_devNCCLCommMap (fst s)))
     (\<lambda>s. [] \<notin> dom (m_devNCCLCommMap (fst s)))"
  by (rule tripleI) (auto simp: devNCCLCommMap_at_def split: option.splits)


lemma triple_True: "triple P m (\<lambda>_ _. True) (\<lambda>_. True)"
  by (rule tripleI) simp_all

lemma triple_bindM_last:
  "(\<And>x. triple (\<lambda>_. True) (g x) Q (\<lambda>_. True)) \<Longrightarrow>
   triple (\<lambda>_. True) (bindM m g) Q (\<lambda>_. True)"
  by (rule triple_bindM [where R = "\<lambda>_ _. True"]) (rule triple_True)

lemma getNCCLComm_create_entry:
  "triple (\<lambda>_. True) (getNCCLComm_create env pg key devices)
     (\<lambda>v s. m_devNCCLCommMap (fst s) key = Some v) (\<lambda>_. True)"
  unfolding getNCCLComm_create_def
  by (intro triple_bindM_last devNCCLCommMap_at_entry)

lemma getNCCLComm_hit:
  "key \<noteq> [] \<Longrightarrow> m_devNCCLCommMap (fst s) key = Some v \<Longrightarrow>
   getNCCLComm env key devices s = (Inr v, s)"
  by (simp add: getNCCLComm_def devNCCLCommMap_at_hit dom_def)

lemma getNCCLComm_entry:
  assumes "fst (getNCCLComm env key devices s) = Inr v"
  shows "key \<noteq> []"
    and "m_devNCCLCommMap (fst (snd (getNCCLComm env key devices s))) key = Some v"
proof -
  show k: "key \<noteq> []"
    using assms by (auto simp: getNCCLComm_def throwM_def)
  obtain s' where m: "getNCCLComm env key devices s = (Inr v, s')"
    using assms by (cases "getNCCLComm env key devices s") simp
  have "m_devNCCLCommMap (fst s') key = Some v"
  proof (cases "key \<in> dom (m_devNCCLCommMap (fst s))")
    case True
    with k m have "devNCCLCommMap_at key s = (Inr v, s')" by (simp add: getNCCLComm_def)
    from tripleD_Inr [OF devNCCLCommMap_at_entry _ this] show ?thesis by simp
  next
    case False
    with k m have "getNCCLComm_create env (fst s) key devices s = (Inr v, s')"
      by (simp add: getNCCLComm_def)
    from tripleD_Inr [OF getNCCLComm_create_entry _ this] show ?thesis by simp
  qed
  with m show "m_devNCCLCommMap (fst (snd (getNCCLComm env key devices s))) key = Some v"
    by simp
qed

text \<open>
  The cache grows: a method enters a key that is not empty and that is not in the cache,
  and changes no entry. So every method keeps a property \<open>C\<close> of the cache that such a
  new entry keeps.
\<close>

lemma devNCCLCommMap_at_cache:
  assumes key: "key \<noteq> []"
    and grow: "\<And>m k v. C m \<Longrightarrow> k \<noteq> [] \<Longrightarrow> k \<notin> dom m \<Longrightarrow> C (m(k \<mapsto> v))"
  shows "triple (\<lambda>s. C (m_devNCCLCommMap (fst s))) (devNCCLCommMap_at key)
     (\<lambda>_ s. C (m_devNCCLCommMap (fst s)))
     (\<lambda>s. C (m_devNCCLCommMap (fst s)))"
proof (rule tripleI)
  fix s e s' assume "devNCCLCommMap_at key s = (Inl e, s')"
  then show "C (m_devNCCLCommMap (fst s'))"
    by (simp add: devNCCLCommMap_at_def split: option.splits)
next
  fix s x s'
  assume c: "C (m_devNCCLCommMap (fst s))" and m: "devNCCLCommMap_at key s = (Inr x, s')"
  show "C (m_devNCCLCommMap (fst s'))"
  proof (cases "m_devNCCLCommMap (fst s) key")
    case None
    then have "key \<notin> dom (m_devNCCLCommMap (fst s))" by (simp add: dom_def)
    from grow [OF c key this, of "[]"] None m show ?thesis
      by (auto simp: devNCCLCommMap_at_def)
  next
    case (Some v)
    with c m show ?thesis by (auto simp: devNCCLCommMap_at_def)
  qed
qed

lemma triple_cache_liftW:
  "triple (\<lambda>s. C (m_devNCCLCommMap (fst s))) (liftW m)
     (\<lambda>_ s. C (m_devNCCLCommMap (fst s)))
     (\<lambda>s. C (m_devNCCLCommMap (fst s)))"
  by (rule triple_keeps [where f = "\<lambda>s. m_devNCCLCommMap (fst s)" and C = C])
    (rule keeps_liftW)

lemma triple_cache_emplace:
  assumes key: "key \<noteq> []"
    and grow: "\<And>m k v. C m \<Longrightarrow> k \<noteq> [] \<Longrightarrow> k \<notin> dom m \<Longrightarrow> C (m(k \<mapsto> v))"
  shows "triple (\<lambda>s. C (m_devNCCLCommMap (fst s)))
     (\<lambda>t. (Inr (),
       ((fst t)\<lparr>m_devNCCLCommMap := emplace (m_devNCCLCommMap (fst t)) key a,
                 m_ncclStreams := emplace (m_ncclStreams (fst t)) key b,
                 m_ncclEvents := emplace (m_ncclEvents (fst t)) key c\<rparr>,
        snd t)))
     (\<lambda>_ s. C (m_devNCCLCommMap (fst s)))
     (\<lambda>s. C (m_devNCCLCommMap (fst s)))"
proof -
  have "C (emplace m key a)" if "C m" for m
    using that grow [OF that key, of a] by (auto simp: emplace_def)
  then show ?thesis by (simp add: triple_def)
qed

lemma getNCCLComm_create_cache:
  assumes key: "key \<noteq> []"
    and grow: "\<And>m k v. C m \<Longrightarrow> k \<noteq> [] \<Longrightarrow> k \<notin> dom m \<Longrightarrow> C (m(k \<mapsto> v))"
  shows "triple (\<lambda>s. C (m_devNCCLCommMap (fst s)))
     (getNCCLComm_create env pg key devices)
     (\<lambda>_ s. C (m_devNCCLCommMap (fst s)))
     (\<lambda>s. C (m_devNCCLCommMap (fst s)))"
  unfolding getNCCLComm_create_def
  apply (rule triple_bindM [where R = "\<lambda>_ s. C (m_devNCCLCommMap (fst s))"])
   apply (rule triple_cache_liftW)
  apply (rule triple_bindM [where R = "\<lambda>_ s. C (m_devNCCLCommMap (fst s))"])
   apply (rule triple_cache_liftW)
  apply (rule triple_bindM [where R = "\<lambda>_ s. C (m_devNCCLCommMap (fst s))"])
   apply (rule triple_cache_liftW)
  apply (rule triple_bindM [where R = "\<lambda>_ s. C (m_devNCCLCommMap (fst s))"])
   apply (rule triple_cache_liftW)
  apply (rule triple_bindM [where R = "\<lambda>_ s. C (m_devNCCLCommMap (fst s))"])
   apply (rule triple_cache_liftW)
  apply (rule triple_bindM [where R = "\<lambda>_ s. C (m_devNCCLCommMap (fst s))"])
   apply (rule triple_cache_emplace [where C = C, OF key grow], assumption+)
  apply (rule devNCCLCommMap_at_cache [where C = C, OF key grow], assumption+)
  done

lemma getNCCLComm_cache:
  assumes grow: "\<And>m k v. C m \<Longrightarrow> k \<noteq> [] \<Longrightarrow> k \<notin> dom m \<Longrightarrow> C (m(k \<mapsto> v))"
  shows "triple (\<lambda>s. C (m_devNCCLCommMap (fst s)))
     (getNCCLComm env key devices)
     (\<lambda>_ s. C (m_devNCCLCommMap (fst s)))
     (\<lambda>s. C (m_devNCCLCommMap (fst s)))"
proof (rule triple_cases)
  fix s :: "ProcessGroupNCCL \<times> world"
  let ?J = "\<lambda>s :: ProcessGroupNCCL \<times> world. C (m_devNCCLCommMap (fst s))"
  show "\<exists>m'. triple ?J m' (\<lambda>_. ?J) ?J \<and> getNCCLComm env key devices s = m' s"
  proof (cases "key = []")
    case True
    then have "getNCCLComm env key devices s = throwM err_devices_not_known s"
      by (simp add: getNCCLComm_def)
    moreover have "triple ?J (throwM err_devices_not_known) (\<lambda>_. ?J) ?J"
      by (rule triple_throwM)
    ultimately show ?thesis by blast
  next
    case False
    have at: "triple ?J (devNCCLCommMap_at key) (\<lambda>_. ?J) ?J"
      by (rule devNCCLCommMap_at_cache [where C = C, OF False grow])
    have create: "triple ?J (getNCCLComm_create env (fst s) key devices) (\<lambda>_. ?J) ?J"
      by (rule getNCCLComm_create_cache [where C = C, OF False grow])
    show ?thesis
    proof (cases "key \<in> dom (m_devNCCLCommMap (fst s))")
      case True
      with False have "getNCCLComm env key devices s = devNCCLCommMap_at key s"
        by (simp add: getNCCLComm_def)
      with at show ?thesis by blast
    next
      case n: False
      with False have "getNCCLComm env key devices s =
          getNCCLComm_create env (fst s) key devices s"
        by (simp add: getNCCLComm_def)
      with create show ?thesis by blast
    qed
  qed
qed

lemma collective_cache:
  assumes grow: "\<And>m k v. C m \<Longrightarrow> k \<noteq> [] \<Longrightarrow> k \<notin> dom m \<Longrightarrow> C (m(k \<mapsto> v))"
    and calls: "\<And>devices key ncclComms.
      keeps (\<lambda>s. m_devNCCLCommMap (fst s)) (calls devices key ncclComms)"
  shows "triple (\<lambda>s. C (m_devNCCLCommMap (fst s)))
     (bindM (liftE check) (\<lambda>_.
      bindM (collective_prologue env tensors) (\<lambda>(devices, key, ncclComms, work).
      bindM (liftW (nccl_checked env ncclGroupStart)) (\<lambda>_.
      bindM (calls devices key ncclComms) (\<lambda>_.
      bindM (liftW (nccl_checked env ncclGroupEnd)) (\<lambda>_.
      bindM (record_events env tensors key work) (\<lambda>_.
      returnM work)))))))
     (\<lambda>_ s. C (m_devNCCLCommMap (fst s)))
     (\<lambda>s. C (m_devNCCLCommMap (fst s)))"
proof -
  let ?J = "\<lambda>s :: ProcessGroupNCCL \<times> world. C (m_devNCCLCommMap (fst s))"
  have k: "triple ?J m (\<lambda>_. ?J) ?J" if "keeps (\<lambda>s. m_devNCCLCommMap (fst s)) m"
    for m :: "ProcessGroupNCCL \<times> world \<Rightarrow> (error + 'z) \<times> (ProcessGroupNCCL \<times> world)"
    using that
    by (rule triple_keeps [where f = "\<lambda>s. m_devNCCLCommMap (fst s)" and C = C])
  have pro: "triple ?J (collective_prologue env tensors) (\<lambda>_. ?J) ?J"
    unfolding collective_prologue_def Let_def
  proof (rule triple_bindM [where R = "\<lambda>_. ?J"])
    show "triple ?J
        (getNCCLComm env (getKeyFromDevices (getDevicesOfTensors tensors))
          (getDevicesOfTensors tensors)) (\<lambda>_. ?J) ?J"
      by (rule getNCCLComm_cache [where C = C, OF grow])
    fix ncclComms
    show "triple ?J
       (bindM (ncclEvents_at (getKeyFromDevices (getDevicesOfTensors tensors))) (\<lambda>events.
        bindM (ncclStreams_at (getKeyFromDevices (getDevicesOfTensors tensors))) (\<lambda>streams.
        bindM (liftW (syncStreams env (getDevicesOfTensors tensors) events streams)) (\<lambda>_.
        bindM (liftW (WorkNCCL_ctor env (getDevicesOfTensors tensors))) (\<lambda>work.
        returnM (getDevicesOfTensors tensors, getKeyFromDevices (getDevicesOfTensors tensors),
          ncclComms, work))))))
       (\<lambda>_. ?J) ?J"
      by (rule k) (intro keeps_intros)
  qed
  have rest: "triple ?J
      (bindM (liftW (nccl_checked env ncclGroupStart)) (\<lambda>_.
       bindM (calls devices key ncclComms) (\<lambda>_.
       bindM (liftW (nccl_checked env ncclGroupEnd)) (\<lambda>_.
       bindM (record_events env tensors key work) (\<lambda>_. returnM work)))))
      (\<lambda>_. ?J) ?J" for devices key ncclComms work
    by (rule k) (intro keeps_intros calls keeps_record_events)
  show ?thesis
  proof (rule triple_bindM [where R = "\<lambda>_. ?J"])
    show "triple ?J (liftE check) (\<lambda>_. ?J) ?J"
      by (rule triple_liftE)
    fix u :: unit
    show "triple ?J
      (bindM (collective_prologue env tensors) (\<lambda>(devices, key, ncclComms, work).
        bindM (liftW (nccl_checked env ncclGroupStart)) (\<lambda>_.
        bindM (calls devices key ncclComms) (\<lambda>_.
        bindM (liftW (nccl_checked env ncclGroupEnd)) (\<lambda>_.
        bindM (record_events env tensors key work) (\<lambda>_. returnM work))))))
      (\<lambda>_. ?J) ?J"
    proof (rule triple_bindM [OF pro])
      fix x :: "int list \<times> string \<times> ncclComm_t list \<times> WorkNCCL"
      obtain devices key ncclComms work where x: "x = (devices, key, ncclComms, work)"
        by (cases x)
      show "triple ?J
        (case x of (devices, key, ncclComms, work) \<Rightarrow>
          bindM (liftW (nccl_checked env ncclGroupStart)) (\<lambda>_.
          bindM (calls devices key ncclComms) (\<lambda>_.
          bindM (liftW (nccl_checked env ncclGroupEnd)) (\<lambda>_.
          bindM (record_events env tensors key work) (\<lambda>_. returnM work)))))
        (\<lambda>_. ?J) ?J"
        unfolding x prod.case by (rule rest)
    qed
  qed
qed

lemma allreduce_cache:
  assumes grow: "\<And>m k v. C m \<Longrightarrow> k \<noteq> [] \<Longrightarrow> k \<notin> dom m \<Longrightarrow> C (m(k \<mapsto> v))"
  shows "triple (\<lambda>s. C (m_devNCCLCommMap (fst s))) (allreduce env tensors opts)
     (\<lambda>_ s. C (m_devNCCLCommMap (fst s)))
     (\<lambda>s. C (m_devNCCLCommMap (fst s)))"
proof (rule triple_cases)
  fix s :: "ProcessGroupNCCL \<times> world"
  let ?J = "\<lambda>s :: ProcessGroupNCCL \<times> world. C (m_devNCCLCommMap (fst s))"
  let ?m = "bindM (liftE (tensorCheckHelper (m_numDevices (fst s)) tensors tensors
                     default_outputOverInput)) (\<lambda>_.
     bindM (collective_prologue env tensors) (\<lambda>(devices, key, ncclComms, work).
     bindM (liftW (nccl_checked env ncclGroupStart)) (\<lambda>_.
     bindM (allreduce_calls env tensors opts devices key ncclComms) (\<lambda>_.
     bindM (liftW (nccl_checked env ncclGroupEnd)) (\<lambda>_.
     bindM (record_events env tensors key work) (\<lambda>_.
     returnM work))))))"
  have "triple ?J ?m (\<lambda>_. ?J) ?J"
    by (rule collective_cache [where C = C, OF grow]) (assumption+, rule keeps_allreduce_calls)
  moreover have "allreduce env tensors opts s = ?m s"
    by (simp add: allreduce_def)
  ultimately show "\<exists>m'. triple ?J m' (\<lambda>_. ?J) ?J \<and> allreduce env tensors opts s = m' s"
    by blast
qed

lemma broadcast_cache:
  assumes grow: "\<And>m k v. C m \<Longrightarrow> k \<noteq> [] \<Longrightarrow> k \<notin> dom m \<Longrightarrow> C (m(k \<mapsto> v))"
  shows "triple (\<lambda>s. C (m_devNCCLCommMap (fst s))) (broadcast env tensors bopts)
     (\<lambda>_ s. C (m_devNCCLCommMap (fst s)))
     (\<lambda>s. C (m_devNCCLCommMap (fst s)))"
proof (rule triple_cases)
  fix s :: "ProcessGroupNCCL \<times> world"
  let ?J = "\<lambda>s :: ProcessGroupNCCL \<times> world. C (m_devNCCLCommMap (fst s))"
  let ?m = "bindM (liftE (tensorCheckHelper (m_numDevices (fst s)) tensors tensors
                     default_outputOverInput)) (\<lambda>_.
     bindM (collective_prologue env tensors) (\<lambda>(devices, key, ncclComms, work).
     bindM (liftW (nccl_checked env ncclGroupStart)) (\<lambda>_.
     bindM (broadcast_calls env tensors bopts devices key ncclComms) (\<lambda>_.
     bindM (liftW (nccl_checked env ncclGroupEnd)) (\<lambda>_.
     bindM (record_events env tensors key work) (\<lambda>_.
     returnM work))))))"
  have "triple ?J ?m (\<lambda>_. ?J) ?J"
    by (rule collective_cache [where C = C, OF grow]) (assumption+, rule keeps_broadcast_calls)
  moreover have "broadcast env tensors bopts s = ?m s"
    by (simp add: broadcast_def)
  ultimately show "\<exists>m'. triple ?J m' (\<lambda>_. ?J) ?J \<and> broadcast env tensors bopts s = m' s"
    by blast
qed

text \<open>No method enters the empty key into the cache.\<close>

lemma reachable_keys: "reachable s \<Longrightarrow> [] \<notin> dom (m_devNCCLCommMap (fst s))"
proof (induction rule: reachable.induct)
  case (constructed store rank size' numDevices w)
  show ?case by (simp add: ProcessGroupNCCL_ctor_def)
next
  case (got s env devicesKey devices)
  have "triple (\<lambda>s. [] \<notin> dom (m_devNCCLCommMap (fst s))) (getNCCLComm env devicesKey devices)
     (\<lambda>_ s. [] \<notin> dom (m_devNCCLCommMap (fst s))) (\<lambda>s. [] \<notin> dom (m_devNCCLCommMap (fst s)))"
    by (rule getNCCLComm_cache [where C = "\<lambda>m. [] \<notin> dom m"]) auto
  from triple_snd [OF this got.IH] show ?case .
next
  case (allreduced s env tensors opts)
  have "triple (\<lambda>s. [] \<notin> dom (m_devNCCLCommMap (fst s))) (allreduce env tensors opts)
     (\<lambda>_ s. [] \<notin> dom (m_devNCCLCommMap (fst s))) (\<lambda>s. [] \<notin> dom (m_devNCCLCommMap (fst s)))"
    by (rule allreduce_cache [where C = "\<lambda>m. [] \<notin> dom m"]) auto
  from triple_snd [OF this allreduced.IH] show ?case .
next
  case (broadcasted s env tensors bopts)
  have "triple (\<lambda>s. [] \<notin> dom (m_devNCCLCommMap (fst s))) (broadcast env tensors bopts)
     (\<lambda>_ s. [] \<notin> dom (m_devNCCLCommMap (fst s))) (\<lambda>s. [] \<notin> dom (m_devNCCLCommMap (fst s)))"
    by (rule broadcast_cache [where C = "\<lambda>m. [] \<notin> dom m"]) auto
  from triple_snd [OF this broadcasted.IH] show ?case .
next
  case (elsewhere pg w w')
  then show ?case by simp
qed

text \<open>An entry of the cache stays what it is, whatever the methods do afterwards.\<close>

lemma entry_grow:
  "m key = Some c \<Longrightarrow> k \<noteq> [] \<Longrightarrow> k \<notin> dom m \<Longrightarrow> (m(k \<mapsto> v)) key = Some c"
  by auto

lemma evolves_entry:
  "evolves s s' \<Longrightarrow> m_devNCCLCommMap (fst s) key = Some c \<Longrightarrow>
   m_devNCCLCommMap (fst s') key = Some c"
proof (induction rule: evolves.induct)
  case (unchanged s)
  then show ?case .
next
  case (then_got s t env devicesKey devices)
  have "triple (\<lambda>s. m_devNCCLCommMap (fst s) key = Some c) (getNCCLComm env devicesKey devices)
     (\<lambda>_ s. m_devNCCLCommMap (fst s) key = Some c) (\<lambda>s. m_devNCCLCommMap (fst s) key = Some c)"
    by (rule getNCCLComm_cache [where C = "\<lambda>m. m key = Some c"]) (rule entry_grow)
  from triple_snd [OF this then_got.IH [OF then_got.prems]] show ?case .
next
  case (then_allreduced s t env tensors opts)
  have "triple (\<lambda>s. m_devNCCLCommMap (fst s) key = Some c) (allreduce env tensors opts)
     (\<lambda>_ s. m_devNCCLCommMap (fst s) key = Some c) (\<lambda>s. m_devNCCLCommMap (fst s) key = Some c)"
    by (rule allreduce_cache [where C = "\<lambda>m. m key = Some c"]) (rule entry_grow)
  from triple_snd [OF this then_allreduced.IH [OF then_allreduced.prems]] show ?case .
next
  case (then_broadcasted s t env tensors bopts)
  have "triple (\<lambda>s. m_devNCCLCommMap (fst s) key = Some c) (broadcast env tensors bopts)
     (\<lambda>_ s. m_devNCCLCommMap (fst s) key = Some c) (\<lambda>s. m_devNCCLCommMap (fst s) key = Some c)"
    by (rule broadcast_cache [where C = "\<lambda>m. m key = Some c"]) (rule entry_grow)
  from triple_snd [OF this then_broadcasted.IH [OF then_broadcasted.prems]] show ?case .
next
  case (then_elsewhere s pg w w')
  then show ?case by simp
qed

lemma evolves_reachable: "evolves s s' \<Longrightarrow> reachable s \<Longrightarrow> reachable s'"
proof (induction rule: evolves.induct)
  case (unchanged s)
  then show ?case .
next
  case (then_got s t env devicesKey devices)
  then show ?case by (intro got) simp
next
  case (then_allreduced s t env tensors opts)
  then show ?case by (intro allreduced) simp
next
  case (then_broadcasted s t env tensors bopts)
  then show ?case by (intro broadcasted) simp
next
  case (then_elsewhere s pg w w')
  then have "reachable (pg, w)" by simp
  then show ?case by (rule elsewhere)
qed

lemma getNCCLComm_later:
  assumes "m_devNCCLCommMap (fst s) key = Some c" "key \<noteq> []" "evolves s s'"
  shows "m_devNCCLCommMap (fst s') key = Some c"
    and "getNCCLComm env key devices s' = (Inr c, s')"
proof -
  show e: "m_devNCCLCommMap (fst s') key = Some c"
    using assms(3,1) by (rule evolves_entry)
  from assms(2) e show "getNCCLComm env key devices s' = (Inr c, s')"
    by (rule getNCCLComm_hit)
qed

text \<open>
  C2. In a state that a program can reach, \<open>getNCCLComm\<close> called with a key that is in
  the cache returns the entry of that key and leaves the process group and the world as
  they are: it creates no communicator, stream or event and exchanges no identifier.
  When a call of \<open>getNCCLComm\<close> returns communicators, they are the entry of the key
  afterwards, and a second call with the same key, for any devices and whatever the
  libraries answer, returns the same communicators and changes nothing. An entry stays
  in the cache as it is whatever is done with the group afterwards (calls of
  \<open>getNCCLComm\<close> for this key or for other keys, \<open>allreduce\<close>, \<open>broadcast\<close>, changes of
  the world), so every later call with the key returns the same communicators.
\<close>

theorem getNCCLComm_idempotent:
  assumes "reachable s"
  shows "(m_devNCCLCommMap (fst s) devicesKey = Some comms \<longrightarrow>
            getNCCLComm env devicesKey devices s = (Inr comms, s))
       \<and> (fst (getNCCLComm env devicesKey devices s) = Inr comms' \<longrightarrow>
            m_devNCCLCommMap (fst (snd (getNCCLComm env devicesKey devices s))) devicesKey =
              Some comms'
            \<and> getNCCLComm env' devicesKey devices' (snd (getNCCLComm env devicesKey devices s)) =
              (Inr comms', snd (getNCCLComm env devicesKey devices s)))
       \<and> (m_devNCCLCommMap (fst s) devicesKey = Some comms \<and> evolves s t \<longrightarrow>
            m_devNCCLCommMap (fst t) devicesKey = Some comms
            \<and> getNCCLComm env' devicesKey devices' t = (Inr comms, t))
       \<and> (fst (getNCCLComm env devicesKey devices s) = Inr comms' \<and>
            evolves (snd (getNCCLComm env devicesKey devices s)) t' \<longrightarrow>
            m_devNCCLCommMap (fst t') devicesKey = Some comms'
            \<and> getNCCLComm env' devicesKey devices' t' = (Inr comms', t'))"
proof (intro conjI impI)
  assume c: "m_devNCCLCommMap (fst s) devicesKey = Some comms"
  from reachable_keys [OF assms] c have "devicesKey \<noteq> []" by auto
  then show "getNCCLComm env devicesKey devices s = (Inr comms, s)"
    using c by (rule getNCCLComm_hit)
next
  assume r: "fst (getNCCLComm env devicesKey devices s) = Inr comms'"
  from getNCCLComm_entry(2) [OF r]
  show "m_devNCCLCommMap (fst (snd (getNCCLComm env devicesKey devices s))) devicesKey =
      Some comms'" .
next
  assume r: "fst (getNCCLComm env devicesKey devices s) = Inr comms'"
  from getNCCLComm_entry [OF r]
  show "getNCCLComm env' devicesKey devices' (snd (getNCCLComm env devicesKey devices s)) =
      (Inr comms', snd (getNCCLComm env devicesKey devices s))"
    by (rule getNCCLComm_hit)
next
  assume a: "m_devNCCLCommMap (fst s) devicesKey = Some comms \<and> evolves s t"
  from reachable_keys [OF assms] a have k: "devicesKey \<noteq> []" by auto
  from a have c: "m_devNCCLCommMap (fst s) devicesKey = Some comms" and e: "evolves s t"
    by simp_all
  show "m_devNCCLCommMap (fst t) devicesKey = Some comms"
    by (rule getNCCLComm_later(1) [OF c k e])
  show "getNCCLComm env' devicesKey devices' t = (Inr comms, t)"
    by (rule getNCCLComm_later(2) [OF c k e])
next
  assume a: "fst (getNCCLComm env devicesKey devices s) = Inr comms' \<and>
      evolves (snd (getNCCLComm env devicesKey devices s)) t'"
  then have r: "fst (getNCCLComm env devicesKey devices s) = Inr comms'"
    and e: "evolves (snd (getNCCLComm env devicesKey devices s)) t'" by simp_all
  note k = getNCCLComm_entry(1) [OF r] and c = getNCCLComm_entry(2) [OF r]
  show "m_devNCCLCommMap (fst t') devicesKey = Some comms'"
    by (rule getNCCLComm_later(1) [OF c k e])
  show "getNCCLComm env' devicesKey devices' t' = (Inr comms', t')"
    by (rule getNCCLComm_later(2) [OF c k e])
qed

theorem getNCCLComm_idempotent_witness:
  "reachable (snd (getNCCLComm env_ok (to_string 0) [0]
       (ProcessGroupNCCL_ctor 0 0 2 8 initial_world)))
   \<and> m_devNCCLCommMap (fst (snd (getNCCLComm env_ok (to_string 0) [0]
       (ProcessGroupNCCL_ctor 0 0 2 8 initial_world)))) (to_string 0) = Some [4]
   \<and> getNCCLComm env_failing (to_string 0) [0]
       (snd (getNCCLComm env_ok (to_string 0) [0]
          (ProcessGroupNCCL_ctor 0 0 2 8 initial_world))) =
     (Inr [4], snd (getNCCLComm env_ok (to_string 0) [0]
          (ProcessGroupNCCL_ctor 0 0 2 8 initial_world)))
   \<and> getNCCLComm env_failing (to_string 0) [0]
       (snd (allreduce env_ok [cuda_tensor 1 4096] \<lparr>reduceOp = ReduceOp_SUM\<rparr>
          (snd (getNCCLComm env_ok (to_string 1) [1]
             (snd (getNCCLComm env_ok (to_string 0) [0]
                (ProcessGroupNCCL_ctor 0 0 2 8 initial_world))))))) =
     (Inr [4],
       snd (allreduce env_ok [cuda_tensor 1 4096] \<lparr>reduceOp = ReduceOp_SUM\<rparr>
          (snd (getNCCLComm env_ok (to_string 1) [1]
             (snd (getNCCLComm env_ok (to_string 0) [0]
                (ProcessGroupNCCL_ctor 0 0 2 8 initial_world)))))))"
proof -
  let ?s0 = "ProcessGroupNCCL_ctor 0 0 2 8 initial_world"
  let ?s1 = "snd (getNCCLComm env_ok (to_string 0) [0] ?s0)"
  let ?s2 = "snd (getNCCLComm env_ok (to_string 1) [1] ?s1)"
  let ?s3 = "snd (allreduce env_ok [cuda_tensor 1 4096] \<lparr>reduceOp = ReduceOp_SUM\<rparr> ?s2)"
  have r0: "reachable ?s0" by (rule constructed)
  then have r1: "reachable ?s1" by (rule got)
  have e: "evolves ?s1 ?s3"
    by (intro then_allreduced then_got unchanged)
  have c: "m_devNCCLCommMap (fst ?s1) (to_string 0) = Some [4]"
    using getNCCLComm_idempotent [OF r0, of "to_string 0" "[4]" env_ok "[0]" "[4]"
        env_failing "[0]" ?s0 ?s3] getNCCLComm_example e
    by blast
  have h: "getNCCLComm env_failing (to_string 0) [0] ?s1 = (Inr [4], ?s1)"
    using getNCCLComm_idempotent [OF r1, of "to_string 0" "[4]" env_failing "[0]" "[4]"
        env_failing "[0]" ?s3 ?s1] c e
    by blast
  have l: "getNCCLComm env_failing (to_string 0) [0] ?s3 = (Inr [4], ?s3)"
    using getNCCLComm_idempotent [OF r0, of "to_string 0" "[4]" env_ok "[0]" "[4]"
        env_failing "[0]" ?s0 ?s3] getNCCLComm_example e
    by blast
  from r1 c h l show ?thesis by blast
qed

end
